theory Spec2Isabelle
  imports Complex_Main
begin

section \<open>Dates and times\<close>

text \<open>
  The engine works on naive Python \<open>datetime\<close> values. A datetime is modelled by its
  position on the proleptic Gregorian time line, in microseconds since
  0001-01-01T00:00:00: equality and comparison of datetimes are equality and comparison
  of these numbers, and \<open>(a - b).days\<close> is the floor of the difference in days, which is
  how \<open>timedelta\<close> normalises a difference. The calendar arithmetic below follows the
  helper functions of the standard \<open>datetime\<close> and \<open>calendar\<close> modules. Floats are
  idealised as real numbers.
\<close>

type_synonym datetime = int

definition usec_per_day :: int where
  "usec_per_day = 86400000000"

definition is_leap :: "int \<Rightarrow> bool" where
  "is_leap y = (y mod 4 = 0 \<and> (y mod 100 \<noteq> 0 \<or> y mod 400 = 0))"

definition days_before_year :: "int \<Rightarrow> int" where
  "days_before_year y = (y - 1) * 365 + (y - 1) div 4 - (y - 1) div 100 + (y - 1) div 400"

definition mdays :: "int \<Rightarrow> int" where
  "mdays m = [31, 28, 31, 30, 31, 30, 31, 31, 30, 31, 30, 31] ! nat (m - 1)"

definition days_before_month_table :: "int \<Rightarrow> int" where
  "days_before_month_table m =
     [0, 31, 59, 90, 120, 151, 181, 212, 243, 273, 304, 334] ! nat (m - 1)"

text \<open>\<open>calendar.monthrange(year, month)[1]\<close>, for a month in 1..12.\<close>

definition days_in_month :: "int \<Rightarrow> int \<Rightarrow> int" where
  "days_in_month y m = (if m = 2 \<and> is_leap y then 29 else mdays m)"

definition days_before_month :: "int \<Rightarrow> int \<Rightarrow> int" where
  "days_before_month y m =
     days_before_month_table m + (if m > 2 \<and> is_leap y then 1 else 0)"

definition ymd2ord :: "int \<Rightarrow> int \<Rightarrow> int \<Rightarrow> int" where
  "ymd2ord y m d = days_before_year y + days_before_month y m + d"

text \<open>The inverse of \<open>ymd2ord\<close>: year, month and day of an ordinal (day 1 is 0001-01-01).\<close>

definition ord2ymd :: "int \<Rightarrow> int \<times> int \<times> int" where
  "ord2ymd ordinal =
     (let n0 = ordinal - 1;
          n400 = n0 div 146097; n1 = n0 mod 146097;
          n100 = n1 div 36524; n2 = n1 mod 36524;
          n4 = n2 div 1461; n3 = n2 mod 1461;
          n1y = n3 div 365; n = n3 mod 365;
          y = n400 * 400 + 1 + n100 * 100 + n4 * 4 + n1y
      in if n1y = 4 \<or> n100 = 4 then (y - 1, 12, 31)
         else
           (let leapyear = (n1y = 3 \<and> (n4 \<noteq> 24 \<or> n100 = 3));
                m = (n + 50) div 32;
                preceding = days_before_month_table m + (if m > 2 \<and> leapyear then 1 else 0)
            in if preceding > n
               then (let m' = m - 1;
                         preceding' = preceding - (mdays m' + (if m' = 2 \<and> leapyear then 1 else 0))
                     in (y, m', n - preceding' + 1))
               else (y, m, n - preceding + 1)))"

definition dt_year :: "datetime \<Rightarrow> int" where
  "dt_year t = fst (ord2ymd (t div usec_per_day + 1))"

definition dt_month :: "datetime \<Rightarrow> int" where
  "dt_month t = fst (snd (ord2ymd (t div usec_per_day + 1)))"

definition dt_day :: "datetime \<Rightarrow> int" where
  "dt_day t = snd (snd (ord2ymd (t div usec_per_day + 1)))"

text \<open>\<open>datetime(y, m, d)\<close>: midnight of a calendar day.\<close>

definition mk_date :: "int \<Rightarrow> int \<Rightarrow> int \<Rightarrow> datetime" where
  "mk_date y m d = (ymd2ord y m d - 1) * usec_per_day"

text \<open>
  \<open>t.replace(year=y, month=m, day=d)\<close> keeps the time of day and raises ValueError
  (\<open>None\<close>) when the fields are no date: a year outside 1..9999, a month outside 1..12,
  a day outside the month.
\<close>

definition replace_date :: "datetime \<Rightarrow> int \<Rightarrow> int \<Rightarrow> int \<Rightarrow> datetime option" where
  "replace_date t y m d =
     (if 1 \<le> y \<and> y \<le> 9999 \<and> 1 \<le> m \<and> m \<le> 12 \<and> 1 \<le> d \<and> d \<le> days_in_month y m
      then Some ((ymd2ord y m d - 1) * usec_per_day + t mod usec_per_day)
      else None)"

text \<open>\<open>(a - b).days\<close>\<close>

definition timedelta_days :: "datetime \<Rightarrow> datetime \<Rightarrow> int" where
  "timedelta_days a b = (a - b) div usec_per_day"

section \<open>The key-rate store and its queries\<close>

text \<open>
  A row of \<open>cbr_key_rates\<close> (\<open>CBRKeyRate\<close>): the announcement date (column \<open>date\<close>), the
  effective date and the rate. The table is the list of its rows in insertion order; the
  bookkeeping columns \<open>id\<close>, \<open>created_at\<close> and \<open>updated_at\<close> are read by no query.
\<close>

record cbr_key_rate =
  date :: datetime
  effective_date :: datetime
  rate :: real

text \<open>\<open>Query.first()\<close>: the first row of the result, or None.\<close>

definition first :: "'a list \<Rightarrow> 'a option" where
  "first xs = (case xs of [] \<Rightarrow> None | x # _ \<Rightarrow> Some x)"

text \<open>\<open>order_by(effective_date)\<close> and \<open>order_by(effective_date.desc())\<close>.\<close>

definition order_by_effective_date :: "cbr_key_rate list \<Rightarrow> cbr_key_rate list" where
  "order_by_effective_date rows = sort_key effective_date rows"

definition order_by_effective_date_desc :: "cbr_key_rate list \<Rightarrow> cbr_key_rate list" where
  "order_by_effective_date_desc rows = rev (sort_key effective_date rows)"

definition get_latest_rate :: "cbr_key_rate list \<Rightarrow> cbr_key_rate option" where
  "get_latest_rate db = first (order_by_effective_date_desc db)"

definition get_rate_on_date :: "cbr_key_rate list \<Rightarrow> datetime \<Rightarrow> cbr_key_rate option" where
  "get_rate_on_date db target_date =
     first (order_by_effective_date_desc (filter (\<lambda>r. effective_date r \<le> target_date) db))"

definition get_current_key_rate :: "cbr_key_rate list \<Rightarrow> real option" where
  "get_current_key_rate db =
     (case get_latest_rate db of Some latest_rate \<Rightarrow> Some (rate latest_rate) | None \<Rightarrow> None)"

definition get_key_rate_on_date :: "cbr_key_rate list \<Rightarrow> datetime \<Rightarrow> real option" where
  "get_key_rate_on_date db target_date =
     (case get_rate_on_date db target_date of
        Some rate_record \<Rightarrow> Some (rate rate_record)
      | None \<Rightarrow> None)"

text \<open>
  The loop of \<open>get_average_key_rate_for_period\<close> over \<open>enumerate(rates)\<close>: the rest of the
  list gives \<open>rates[i + 1]\<close>; the accumulator is \<open>(weighted_sum, total_weight)\<close>.
\<close>

fun average_loop ::
  "cbr_key_rate list \<Rightarrow> datetime \<Rightarrow> datetime \<Rightarrow> real \<times> int \<Rightarrow> real \<times> int" where
  "average_loop [] start_date end_date acc = acc"
| "average_loop (r # rates) start_date end_date (weighted_sum, total_weight) =
     (let rate_start = max (effective_date r) start_date;
          rate_end = (case rates of
                        nxt # _ \<Rightarrow> min (effective_date nxt) end_date
                      | [] \<Rightarrow> end_date);
          days_effective = timedelta_days rate_end rate_start
      in average_loop rates start_date end_date
           (if days_effective > 0
            then (weighted_sum + rate r * real_of_int days_effective,
                  total_weight + days_effective)
            else (weighted_sum, total_weight)))"

definition get_average_key_rate_for_period ::
  "cbr_key_rate list \<Rightarrow> datetime \<Rightarrow> datetime \<Rightarrow> real option" where
  "get_average_key_rate_for_period db start_date end_date =
     (let rates = order_by_effective_date
                    (filter (\<lambda>r. effective_date r \<ge> start_date \<and> effective_date r \<le> end_date) db)
      in case rates of
           [] \<Rightarrow>
             (case get_rate_on_date db start_date of
                Some rate_record \<Rightarrow> Some (rate rate_record)
              | None \<Rightarrow> None)
         | r0 # _ \<Rightarrow>
             (let total_days = timedelta_days end_date start_date
              in if total_days = 0 then Some (rate r0)
                 else
                   (let (weighted_sum, total_weight) =
                          average_loop rates start_date end_date (0, 0);
                        (weighted_sum, total_weight) =
                          (if effective_date r0 > start_date
                           then (case get_rate_on_date db start_date of
                                   Some pre_period_rate \<Rightarrow>
                                     (let days_before_first_rate =
                                            timedelta_days (effective_date r0) start_date
                                      in (weighted_sum
                                            + rate pre_period_rate * real_of_int days_before_first_rate,
                                          total_weight + days_before_first_rate))
                                 | None \<Rightarrow> (weighted_sum, total_weight))
                           else (weighted_sum, total_weight))
                    in if total_weight = 0 then None
                       else Some (weighted_sum / real_of_int total_weight))))"

section \<open>Ingestion: the upsert of \<open>update_key_rates\<close>\<close>

text \<open>
  One fetched entry: the dictionary with the keys \<open>date\<close>, \<open>effective_date\<close> and \<open>rate\<close>.
\<close>

record rate_data =
  rd_date :: datetime
  rd_effective_date :: datetime
  rd_rate :: real

datatype error =
    ValueError
  | NameError string
  | TypeError
  | FetchError
  | DatabaseError
  | HTTPException int

text \<open>
  The session is made with \<open>autoflush=False\<close>: a row passed to \<open>add\<close> stays pending until
  the commit, and the query for an existing row reads the table only. The loop carries
  the table, the pending rows and the counter. An existing row is changed in place; its
  \<open>date\<close>, the column the query filters on, is never written.
\<close>

fun update_first :: "('a \<Rightarrow> bool) \<Rightarrow> ('a \<Rightarrow> 'a) \<Rightarrow> 'a list \<Rightarrow> 'a list" where
  "update_first P f [] = []"
| "update_first P f (x # xs) = (if P x then f x # xs else x # update_first P f xs)"

fun upsert_loop ::
  "rate_data list \<Rightarrow> cbr_key_rate list \<Rightarrow> cbr_key_rate list \<Rightarrow> int
     \<Rightarrow> cbr_key_rate list \<times> cbr_key_rate list \<times> int" where
  "upsert_loop [] db pending updated_count = (db, pending, updated_count)"
| "upsert_loop (rd # key_rates) db pending updated_count =
     (case first (filter (\<lambda>r. date r = rd_date rd) db) of
        Some existing_rate \<Rightarrow>
          upsert_loop key_rates
            (update_first (\<lambda>r. date r = rd_date rd)
               (\<lambda>r. r\<lparr>rate := rd_rate rd, effective_date := rd_effective_date rd\<rparr>) db)
            pending (updated_count + 1)
      | None \<Rightarrow>
          upsert_loop key_rates db
            (pending @ [\<lparr>date = rd_date rd, effective_date = rd_effective_date rd,
                         rate = rd_rate rd\<rparr>])
            (updated_count + 1))"

text \<open>
  Lines 333 to 360 of \<open>update_key_rates\<close>: the loop, the commit and the returned count.
\<close>

definition upsert_key_rates ::
  "rate_data list \<Rightarrow> cbr_key_rate list \<Rightarrow> cbr_key_rate list \<times> int" where
  "upsert_key_rates key_rates db =
     (case upsert_loop key_rates db [] 0 of
        (db', pending, updated_count) \<Rightarrow> (db' @ pending, updated_count))"

text \<open>
  \<open>update_key_rates\<close> after the three fetches: \<open>key_rates\<close> is what the official sources
  returned for the requested range. The function raises when they returned nothing.
\<close>

definition update_key_rates ::
  "rate_data list \<Rightarrow> cbr_key_rate list \<Rightarrow> error + cbr_key_rate list \<times> int" where
  "update_key_rates key_rates db =
     (if key_rates = [] then Inl FetchError else Inr (upsert_key_rates key_rates db))"

section \<open>Payment periods\<close>

text \<open>
  A row of \<open>payment_schedules\<close> (\<open>PaymentSchedule\<close>). The nullable columns are options. The
  three dates and the principal are not nullable.
\<close>

record payment_schedule =
  credit_obligation_id :: int
  period_start_date :: datetime
  period_end_date :: datetime
  payment_date :: datetime
  principal_amount :: real
  interest_amount :: "real option"
  total_payment :: "real option"
  period_days :: "int option"
  period_number :: int
  interest_rate :: "real option"
  base_rate :: "real option"
  spread :: "real option"

definition calculate_period_days :: "datetime \<Rightarrow> datetime \<Rightarrow> int" where
  "calculate_period_days sd ed = timedelta_days ed sd"

definition calculate_interest_amount :: "real \<Rightarrow> real \<Rightarrow> int \<Rightarrow> real" where
  "calculate_interest_amount princ r days = princ * (r / 100) * (real_of_int days / 365)"

text \<open>Truthiness of an optional number: neither None nor zero.\<close>

definition truthy :: "'a::zero option \<Rightarrow> bool" where
  "truthy v = (case v of None \<Rightarrow> False | Some x \<Rightarrow> x \<noteq> 0)"

text \<open>
  \<open>calculate_financials\<close>. A datetime is always true, so the first test always passes.
\<close>

definition calculate_financials :: "payment_schedule \<Rightarrow> payment_schedule" where
  "calculate_financials self =
     (let s1 = self\<lparr>period_days :=
                      Some (calculate_period_days (period_start_date self) (period_end_date self))\<rparr>;
          s2 = (case (interest_rate s1, period_days s1) of
                  (Some r, Some d) \<Rightarrow>
                    if principal_amount s1 \<noteq> 0 \<and> r \<noteq> 0 \<and> d \<noteq> 0
                    then s1\<lparr>interest_amount :=
                              Some (calculate_interest_amount (principal_amount s1) r d)\<rparr>
                    else s1
                | _ \<Rightarrow> s1);
          s3 = (if principal_amount s2 \<noteq> 0 \<and> truthy (interest_amount s2)
                then s2\<lparr>total_payment := interest_amount s2\<rparr>
                else s2)
      in s3)"

text \<open>
  \<open>recalculate_with_historical_rates\<close>. The method changes the period in place and may
  raise, so the model returns the period as the call leaves it together with the
  exception, if any. \<open>current_date\<close> is \<open>datetime.now()\<close>. The module
  \<open>payment_schedule.py\<close> binds no name \<open>logger\<close>, so the call \<open>logger.warning\<close> on the
  branch without historical data raises NameError before the \<open>return\<close> after it. The
  opening test on the two period dates never holds: the columns are not nullable and a
  datetime is always true.
\<close>

definition recalculate_interest_amount :: "payment_schedule \<Rightarrow> real \<Rightarrow> payment_schedule" where
  "recalculate_interest_amount self r =
     (case period_days self of
        Some d \<Rightarrow>
          if principal_amount self \<noteq> 0 \<and> d \<noteq> 0
          then (let i = calculate_interest_amount (principal_amount self) r d
                in self\<lparr>interest_amount := Some i, total_payment := Some i\<rparr>)
          else self
      | None \<Rightarrow> self)"

definition recalculate_with_historical_rates ::
  "cbr_key_rate list \<Rightarrow> datetime \<Rightarrow> string \<Rightarrow> real \<Rightarrow> payment_schedule
     \<Rightarrow> payment_schedule \<times> error option" where
  "recalculate_with_historical_rates db current_date base_rate_indicator credit_spread self =
     (if base_rate_indicator = ''KEY_RATE'' then
        (if period_start_date self > current_date then
           (case get_current_key_rate db of
              Some current_rate \<Rightarrow>
                (recalculate_interest_amount
                   (self\<lparr>base_rate := Some current_rate,
                         interest_rate := Some (current_rate + credit_spread)\<rparr>)
                   (current_rate + credit_spread), None)
            | None \<Rightarrow> (self, None))
         else
           (case get_average_key_rate_for_period db (period_start_date self) (period_end_date self) of
              Some average_base_rate \<Rightarrow>
                (recalculate_interest_amount
                   (self\<lparr>base_rate := Some average_base_rate,
                         interest_rate := Some (average_base_rate + credit_spread)\<rparr>)
                   (average_base_rate + credit_spread), None)
            | None \<Rightarrow> (self, Some (NameError ''logger''))))
      else (self, None))"

section \<open>Credits and schedule generation\<close>

datatype PaymentFrequency = MONTHLY | QUARTERLY | SEMI_ANNUAL | ANNUAL

datatype PaymentType = ANNUITY | DIFFERENTIATED | BULLET | INTEREST_ONLY

text \<open>
  The value held by \<open>credit.payment_frequency\<close> when the schedule is generated: a member
  of the model's enum, or any other object (the manual creation path stores the member of
  the request schema's enum, which is another class, and generates before the row is
  reloaded).
\<close>

datatype frequency_value = Member PaymentFrequency | Other_object string

text \<open>The columns of \<open>CreditObligation\<close> that generation and recalculation read.\<close>

record credit_obligation =
  credit_id :: int
  credit_name :: string
  credit_principal_amount :: real
  credit_start_date :: datetime
  credit_end_date :: datetime
  credit_base_rate_indicator :: string
  credit_base_rate_value :: real
  credit_spread_value :: real
  credit_payment_frequency :: frequency_value
  credit_payment_type :: PaymentType

definition period_increment :: "PaymentFrequency \<rightharpoonup> int" where
  "period_increment = [MONTHLY \<mapsto> 1, QUARTERLY \<mapsto> 3, SEMI_ANNUAL \<mapsto> 6, ANNUAL \<mapsto> 12]"

text \<open>\<open>period_increment.get(credit.payment_frequency, 1)\<close>\<close>

definition month_increment_of :: "frequency_value \<Rightarrow> int" where
  "month_increment_of v =
     (case v of
        Member f \<Rightarrow> (case period_increment f of Some n \<Rightarrow> n | None \<Rightarrow> 1)
      | Other_object _ \<Rightarrow> 1)"

text \<open>The inner loop that carries the month over the end of the year.\<close>

function roll_month :: "int \<Rightarrow> int \<Rightarrow> int \<times> int" where
  "roll_month new_month new_year =
     (if new_month > 12 then roll_month (new_month - 12) (new_year + 1)
      else (new_month, new_year))"
  by pat_completeness auto
termination
  by (relation "measure (\<lambda>(new_month, new_year). nat new_month)") auto

declare roll_month.simps [simp del]

text \<open>
  The end of the period that starts at \<open>current_start\<close>, before it is cut at the credit's
  end date. \<open>if payment_day_override\<close> holds for a number other than zero. The first
  \<open>replace\<close> is tried again with the month's last day when it raises ValueError; the second
  one may raise it too (a year after 9999), and that leaves the function.
\<close>

definition next_period_end :: "datetime \<Rightarrow> int \<Rightarrow> int option \<Rightarrow> error + datetime" where
  "next_period_end current_start month_increment payment_day_override =
     (let current_year = dt_year current_start;
          current_month = dt_month current_start;
          (new_month, new_year) = roll_month (current_month + month_increment) current_year;
          target_day = (case payment_day_override of
                          Some d \<Rightarrow>
                            if d \<noteq> 0 then min d (days_in_month new_year new_month)
                            else days_in_month new_year new_month
                        | None \<Rightarrow> days_in_month new_year new_month)
      in case replace_date current_start new_year new_month target_day of
           Some period_end \<Rightarrow> Inr period_end
         | None \<Rightarrow>
             (case replace_date current_start new_year new_month
                     (days_in_month new_year new_month) of
                Some period_end \<Rightarrow> Inr period_end
              | None \<Rightarrow> Inl ValueError))"

text \<open>The \<open>PaymentSchedule\<close> of one period, after \<open>calculate_financials\<close>.\<close>

definition new_payment_schedule ::
  "credit_obligation \<Rightarrow> datetime \<Rightarrow> datetime \<Rightarrow> int \<Rightarrow> payment_schedule" where
  "new_payment_schedule credit current_start period_end period_num =
     (let payment_date_v = period_end;
          principal_for_period =
            (if credit_payment_type credit = BULLET
             then (if period_end \<ge> credit_end_date credit
                   then credit_principal_amount credit else credit_principal_amount credit)
             else if credit_payment_type credit = INTEREST_ONLY
             then credit_principal_amount credit
             else credit_principal_amount credit);
          base_rate_for_period = credit_base_rate_value credit;
          total_rate_for_period = base_rate_for_period + credit_spread_value credit
      in calculate_financials
           \<lparr>credit_obligation_id = credit_id credit,
            period_start_date = current_start,
            period_end_date = period_end,
            payment_date = payment_date_v,
            principal_amount = principal_for_period,
            interest_amount = None,
            total_payment = None,
            period_days = None,
            period_number = period_num,
            interest_rate = Some total_rate_for_period,
            base_rate = Some base_rate_for_period,
            spread = Some (credit_spread_value credit)\<rparr>)"

text \<open>
  The main loop of \<open>generate_payment_schedule\<close>. The result is the list of entries and
  whether the loop left through the safety check (which prints the warning).
\<close>

function generate_loop ::
  "credit_obligation \<Rightarrow> int option \<Rightarrow> int \<Rightarrow> datetime \<Rightarrow> int \<Rightarrow> payment_schedule list
     \<Rightarrow> error + payment_schedule list \<times> bool" where
  "generate_loop credit payment_day_override month_increment current_start period_num
       payment_entries =
     (if current_start < credit_end_date credit then
        (case next_period_end current_start month_increment payment_day_override of
           Inl e \<Rightarrow> Inl e
         | Inr period_end0 \<Rightarrow>
             (let period_end = (if period_end0 > credit_end_date credit
                                then credit_end_date credit else period_end0);
                  entries = payment_entries
                              @ [new_payment_schedule credit current_start period_end period_num]
              in if period_num + 1 > 100 then Inr (entries, True)
                 else generate_loop credit payment_day_override month_increment period_end
                        (period_num + 1) entries))
      else Inr (payment_entries, False))"
  by pat_completeness auto
termination
  by (relation "measure (\<lambda>(credit, payment_day_override, month_increment, current_start,
                           period_num, payment_entries). nat (101 - period_num))") auto

declare generate_loop.simps [simp del]

text \<open>
  \<open>generate_payment_schedule\<close>: the entries, the warning of the safety check, and the
  session's payment rows after \<open>add_all\<close> and \<open>flush\<close>. An exception leaves the function
  (\<open>raise e\<close>) before anything is added.
\<close>

definition generate_payment_schedule ::
  "credit_obligation \<Rightarrow> payment_schedule list \<Rightarrow> int option
     \<Rightarrow> error + payment_schedule list \<times> bool \<times> payment_schedule list" where
  "generate_payment_schedule credit db payment_day_override =
     (let month_increment = month_increment_of (credit_payment_frequency credit)
      in case generate_loop credit payment_day_override month_increment
                (credit_start_date credit) 1 [] of
           Inl e \<Rightarrow> Inl e
         | Inr (payment_entries, warned) \<Rightarrow>
             Inr (payment_entries, warned,
                  if payment_entries \<noteq> [] then db @ payment_entries else db))"

section \<open>The recalculation endpoint\<close>

text \<open>One element of \<open>recalculated_periods\<close> in the response.\<close>

record recalc_entry =
  entry_period_number :: int
  entry_period_start :: datetime
  entry_period_end :: datetime
  old_base_rate :: "real option"
  new_base_rate :: "real option"
  old_total_rate :: "real option"
  new_total_rate :: "real option"
  old_interest_amount :: "real option"
  new_interest_amount :: "real option"
  difference :: real

text \<open>
  \<open>period.interest_amount - old_interest if old_interest else 0\<close>; the subtraction raises
  TypeError on None.
\<close>

definition interest_difference :: "real option \<Rightarrow> real option \<Rightarrow> error + real" where
  "interest_difference new_interest old_interest =
     (if truthy old_interest
      then (case (new_interest, old_interest) of
              (Some n, Some old) \<Rightarrow> Inr (n - old)
            | _ \<Rightarrow> Inl TypeError)
      else Inr 0)"

text \<open>
  The loop over the periods of the endpoint. An exception of the method leaves the loop:
  the periods after it are not visited. \<open>recalculated\<close> are the period objects already
  visited, \<open>recalculated_periods\<close> the entries of the response. The clock is read once.
\<close>

fun recalculate_loop ::
  "cbr_key_rate list \<Rightarrow> datetime \<Rightarrow> string \<Rightarrow> real \<Rightarrow> payment_schedule list
     \<Rightarrow> payment_schedule list \<Rightarrow> recalc_entry list
     \<Rightarrow> error + payment_schedule list \<times> recalc_entry list" where
  "recalculate_loop db current_date indicator credit_spread [] recalculated recalculated_periods =
     Inr (recalculated, recalculated_periods)"
| "recalculate_loop db current_date indicator credit_spread (period # rest) recalculated
       recalculated_periods =
     (let old_interest = interest_amount period;
          old_base = base_rate period;
          old_total = interest_rate period
      in case recalculate_with_historical_rates db current_date indicator credit_spread period of
           (period', Some e) \<Rightarrow> Inl e
         | (period', None) \<Rightarrow>
             (case interest_difference (interest_amount period') old_interest of
                Inl e \<Rightarrow> Inl e
              | Inr diff \<Rightarrow>
                  recalculate_loop db current_date indicator credit_spread rest
                    (recalculated @ [period'])
                    (recalculated_periods @
                       [\<lparr>entry_period_number = period_number period',
                         entry_period_start = period_start_date period',
                         entry_period_end = period_end_date period',
                         old_base_rate = old_base,
                         new_base_rate = base_rate period',
                         old_total_rate = old_total,
                         new_total_rate = interest_rate period',
                         old_interest_amount = old_interest,
                         new_interest_amount = interest_amount period',
                         difference = diff\<rparr>])))"

definition sum_of_present :: "real option list \<Rightarrow> real" where
  "sum_of_present vs = sum_list (map (\<lambda>v. case v of Some x \<Rightarrow> x | None \<Rightarrow> 0) vs)"

record recalc_response =
  committed_periods :: "payment_schedule list"
  recalculated_periods :: "recalc_entry list"
  total_periods :: nat
  total_old_interest :: real
  total_new_interest :: real
  total_difference :: real

text \<open>
  \<open>recalculate_interest_with_historical_rates\<close>: \<open>credit\<close> and \<open>schedule\<close> are the results of
  the two queries. Any exception inside the \<open>try\<close> rolls the session back and becomes the
  HTTP error 500; a success commits the changed periods. The three totals of the summary
  pass through Python's \<open>round(x, 2)\<close>, which rounds the double and is not determined by
  the idealised real number: it is the parameter \<open>round_2\<close>.
\<close>

definition recalculate_interest_with_historical_rates ::
  "(real \<Rightarrow> real) \<Rightarrow> cbr_key_rate list \<Rightarrow> datetime \<Rightarrow> credit_obligation option
     \<Rightarrow> payment_schedule list \<Rightarrow> error + recalc_response" where
  "recalculate_interest_with_historical_rates round_2 db current_date credit schedule =
     (case credit of
        None \<Rightarrow> Inl (HTTPException 404)
      | Some c \<Rightarrow>
          if schedule = [] then Inl (HTTPException 404)
          else
            (case recalculate_loop db current_date (credit_base_rate_indicator c)
                    (credit_spread_value c) schedule [] [] of
               Inl e \<Rightarrow> Inl (HTTPException 500)
             | Inr (periods, entries) \<Rightarrow>
                 (let total_old = sum_of_present (map old_interest_amount entries);
                      total_new = sum_of_present (map new_interest_amount entries)
                  in Inr \<lparr>committed_periods = periods,
                          recalculated_periods = entries,
                          total_periods = length entries,
                          total_old_interest = round_2 total_old,
                          total_new_interest = round_2 total_new,
                          total_difference = round_2 (total_new - total_old)\<rparr>)))"

section \<open>The base rate at generation time\<close>

text \<open>
  \<open>get_base_rate_value\<close>. The table is read through the session, and the \<open>except\<close> clause
  turns an exception of that read into the default: \<open>Inl\<close> is a read that raises.
\<close>

definition get_base_rate_value :: "string \<Rightarrow> error + cbr_key_rate list \<Rightarrow> real" where
  "get_base_rate_value base_rate_indicator db =
     (if base_rate_indicator = ''KEY_RATE'' then
        (case db of
           Inl e \<Rightarrow> 16
         | Inr table \<Rightarrow>
             (case get_current_key_rate table of
                Some current_rate \<Rightarrow> current_rate
              | None \<Rightarrow> 16))
      else if base_rate_indicator = ''LIBOR'' then 5
      else if base_rate_indicator = ''SOFR'' then 9 / 2
      else 16)"

section \<open>Notions used in the properties\<close>

text \<open>The fields that identify a period and fix its basis: recalculation must keep them.\<close>

definition identity_fields ::
  "payment_schedule \<Rightarrow> int \<times> datetime \<times> datetime \<times> datetime \<times> real \<times> int option" where
  "identity_fields p =
     (period_number p, period_start_date p, period_end_date p, payment_date p,
      principal_amount p, period_days p)"

text \<open>The number and the dates of a period.\<close>

definition period_dates :: "payment_schedule \<Rightarrow> int \<times> datetime \<times> datetime \<times> datetime" where
  "period_dates p = (period_number p, period_start_date p, period_end_date p, payment_date p)"

text \<open>
  \<open>linked a ps b\<close>: the periods \<open>ps\<close> lead from \<open>a\<close> to \<open>b\<close>, each starting where the one
  before it ends.
\<close>

fun linked :: "datetime \<Rightarrow> payment_schedule list \<Rightarrow> datetime \<Rightarrow> bool" where
  "linked a [] b = (a = b)"
| "linked a (p # ps) b = (period_start_date p = a \<and> linked (period_end_date p) ps b)"

text \<open>
  The duration-weighted average in the specification's words: the average of the
  piecewise-constant rate curve over the interval from \<open>s\<close> to \<open>e\<close>, each rate weighted by
  the time it was in force. The rate in force at an instant is the point lookup there; the
  curve changes only at effective dates, so the interval is cut at the effective dates
  strictly inside it and each piece carries the rate in force at its start. The sum of
  rate times duration over the pieces is divided by the duration of the interval. The
  average is defined for a non-empty interval with a rate in force on all of it.
\<close>

fun rate_integral :: "(datetime \<Rightarrow> real option) \<Rightarrow> datetime list \<Rightarrow> real option" where
  "rate_integral f (a # b # cuts) =
     (case f a of
        Some r \<Rightarrow>
          (case rate_integral f (b # cuts) of
             Some rest \<Rightarrow> Some (r * real_of_int (b - a) + rest)
           | None \<Rightarrow> None)
      | None \<Rightarrow> None)"
| "rate_integral f cuts = Some 0"

definition spec_average_over :: "cbr_key_rate list \<Rightarrow> datetime \<Rightarrow> datetime \<Rightarrow> real option" where
  "spec_average_over db s e =
     (if s < e then
        (let inner = filter (\<lambda>r. s < effective_date r \<and> effective_date r < e)
                       (order_by_effective_date db)
         in case rate_integral (get_key_rate_on_date db)
                   (s # map effective_date inner @ [e]) of
              Some area \<Rightarrow> Some (area / real_of_int (e - s))
            | None \<Rightarrow> None)
      else None)"

text \<open>
  What the range query computes over a range of at least one whole day, in closed form:
  the same pieces, but each weighted by its whole days (the day count of the difference
  of its ends, rounded down), pieces with no rate in force left out, and None when the
  whole days add up to zero.
\<close>

fun whole_day_sums :: "(datetime \<Rightarrow> real option) \<Rightarrow> datetime list \<Rightarrow> real \<times> int" where
  "whole_day_sums f (a # b # cuts) =
     (let (ws, tw) = whole_day_sums f (b # cuts);
          days = timedelta_days b a
      in case f a of
           Some r \<Rightarrow> (r * real_of_int days + ws, days + tw)
         | None \<Rightarrow> (ws, tw))"
| "whole_day_sums f cuts = (0, 0)"

definition whole_day_average :: "cbr_key_rate list \<Rightarrow> datetime \<Rightarrow> datetime \<Rightarrow> real option" where
  "whole_day_average db s e =
     (let inner = filter (\<lambda>r. s < effective_date r \<and> effective_date r < e)
                    (order_by_effective_date db);
          (ws, tw) = whole_day_sums (get_key_rate_on_date db)
                       (s # map effective_date inner @ [e])
      in if tw = 0 then None else Some (ws / real_of_int tw))"

text \<open>A rate point announced two days before it takes effect.\<close>

definition rate_point :: "datetime \<Rightarrow> real \<Rightarrow> cbr_key_rate" where
  "rate_point t r = \<lparr>date = t - 2 * usec_per_day, effective_date = t, rate = r\<rparr>"

text \<open>
  The row that a fetched entry becomes, and an existing row overwritten with an entry.
\<close>

definition row_of :: "rate_data \<Rightarrow> cbr_key_rate" where
  "row_of rd = \<lparr>date = rd_date rd, effective_date = rd_effective_date rd, rate = rd_rate rd\<rparr>"

definition overwrite_with :: "rate_data \<Rightarrow> cbr_key_rate \<Rightarrow> cbr_key_rate" where
  "overwrite_with rd r = r\<lparr>rate := rd_rate rd, effective_date := rd_effective_date rd\<rparr>"

text \<open>Two fetched entries for the announcement date 2024-07-26.\<close>

definition example_entry :: rate_data where
  "example_entry =
     \<lparr>rd_date = mk_date 2024 7 26, rd_effective_date = mk_date 2024 7 28, rd_rate = 18\<rparr>"

definition example_entry_revised :: rate_data where
  "example_entry_revised =
     \<lparr>rd_date = mk_date 2024 7 26, rd_effective_date = mk_date 2024 7 28, rd_rate = 19\<rparr>"

text \<open>
  Example data: the credit of the end-to-end scenario (principal 1,000,000, base rate 16,
  spread 2.5, monthly) between two dates, and one of its periods as generation makes it.
\<close>

definition example_credit :: "datetime \<Rightarrow> datetime \<Rightarrow> credit_obligation" where
  "example_credit sd ed =
     \<lparr>credit_id = 1, credit_name = ''Loan'', credit_principal_amount = 1000000,
      credit_start_date = sd, credit_end_date = ed,
      credit_base_rate_indicator = ''KEY_RATE'', credit_base_rate_value = 16,
      credit_spread_value = 5 / 2, credit_payment_frequency = Member MONTHLY,
      credit_payment_type = INTEREST_ONLY\<rparr>"

definition example_period :: "int \<Rightarrow> datetime \<Rightarrow> datetime \<Rightarrow> payment_schedule" where
  "example_period n sd ed = new_payment_schedule (example_credit sd ed) sd ed n"

text \<open>A rate of 21 announced on 2024-06-01 and effective two days later.\<close>

definition example_rates :: "cbr_key_rate list" where
  "example_rates =
     [\<lparr>date = mk_date 2024 6 1, effective_date = mk_date 2024 6 3, rate = 21\<rparr>]"

section \<open>Properties of the rate queries on an empty store\<close>

lemma first_Nil: "first [] = None"
  by (simp add: first_def)

text \<open>
  Claim C8. When the rate store is empty, the current rate, the rate on any date and the
  average over any range are all None: none of the three queries returns a default number.
\<close>

theorem empty_store_unavailable:
  "get_current_key_rate [] = None
   \<and> get_key_rate_on_date [] x = None
   \<and> get_average_key_rate_for_period [] a b = None"
  by (simp add: get_current_key_rate_def get_latest_rate_def get_key_rate_on_date_def
        get_rate_on_date_def get_average_key_rate_for_period_def
        order_by_effective_date_def order_by_effective_date_desc_def first_Nil)

section \<open>The base rate used at generation time\<close>

text \<open>
  Claim C10. \<open>get_base_rate_value\<close> always returns a number. For KEY_RATE it is the current
  key rate when the store has one and the default 16 when the store has none (in
  particular when it is empty) or when reading it raises; for LIBOR it is 5, for SOFR 4.5,
  and for every other indicator 16. So where the query engine answers None, generation
  uses the constant 16.
\<close>

theorem base_rate_value_defaults:
  "get_base_rate_value ''KEY_RATE'' (Inr []) = 16
   \<and> get_base_rate_value ''LIBOR'' db = 5
   \<and> get_base_rate_value ''SOFR'' db = 9 / 2
   \<and> (ind \<noteq> ''KEY_RATE'' \<and> ind \<noteq> ''LIBOR'' \<and> ind \<noteq> ''SOFR''
        \<longrightarrow> get_base_rate_value ind db = 16)
   \<and> (get_current_key_rate table = None \<longrightarrow> get_base_rate_value ''KEY_RATE'' (Inr table) = 16)
   \<and> (get_current_key_rate table = Some r \<longrightarrow> get_base_rate_value ''KEY_RATE'' (Inr table) = r)
   \<and> get_base_rate_value ''KEY_RATE'' (Inl e) = 16"
  by (simp add: get_base_rate_value_def get_current_key_rate_def get_latest_rate_def
        order_by_effective_date_desc_def first_Nil)

theorem base_rate_value_defaults_witness:
  "get_base_rate_value ''KEY_RATE'' (Inr []) = 16
   \<and> get_base_rate_value ''LIBOR'' (Inr []) = 5
   \<and> get_base_rate_value ''SOFR'' (Inr []) = 9 / 2
   \<and> get_base_rate_value ''EURIBOR'' (Inr []) = 16
   \<and> get_current_key_rate [] = None
   \<and> get_current_key_rate [\<lparr>date = 0, effective_date = 2, rate = 21\<rparr>] = Some 21
   \<and> get_base_rate_value ''KEY_RATE'' (Inr [\<lparr>date = 0, effective_date = 2, rate = 21\<rparr>]) = 21"
  using base_rate_value_defaults
          [of "Inr []" "''EURIBOR''" "[\<lparr>date = 0, effective_date = 2, rate = 21\<rparr>]" 21]
        base_rate_value_defaults [of "Inr []" "''EURIBOR''" "[]" 21]
  by (simp add: get_current_key_rate_def get_latest_rate_def
        order_by_effective_date_desc_def first_def)

section \<open>Recalculation\<close>

lemma identity_fields_recalculate_interest_amount:
  "identity_fields (recalculate_interest_amount p r) = identity_fields p"
  by (simp add: recalculate_interest_amount_def identity_fields_def Let_def split: option.splits)

lemma identity_fields_method:
  "identity_fields (fst (recalculate_with_historical_rates db now ind sp p)) = identity_fields p"
  by (simp add: recalculate_with_historical_rates_def identity_fields_recalculate_interest_amount
        split: option.splits)
     (simp add: identity_fields_def)

lemma recalculate_loop_frame:
  "recalculate_loop db now ind sp ps visited es = Inr (qs, es')
   \<Longrightarrow> map identity_fields qs = map identity_fields (visited @ ps)"
proof (induction ps arbitrary: visited es)
  case Nil
  then show ?case by simp
next
  case (Cons p ps)
  obtain p' x where r: "recalculate_with_historical_rates db now ind sp p = (p', x)"
    by (cases "recalculate_with_historical_rates db now ind sp p")
  have f: "identity_fields p' = identity_fields p"
    using identity_fields_method [of db now ind sp p] r by simp
  from Cons.prems r obtain d where
    "recalculate_loop db now ind sp ps (visited @ [p'])
       (es @ [\<lparr>entry_period_number = period_number p',
                entry_period_start = period_start_date p',
                entry_period_end = period_end_date p',
                old_base_rate = base_rate p,
                new_base_rate = base_rate p',
                old_total_rate = interest_rate p,
                new_total_rate = interest_rate p',
                old_interest_amount = interest_amount p,
                new_interest_amount = interest_amount p',
                difference = d\<rparr>]) = Inr (qs, es')"
    by (auto simp: Let_def split: option.splits sum.splits)
  from Cons.IH [OF this] f show ?case by simp
qed

text \<open>
  Claim C7. Whatever the method does to a period (a new rate, a skip for an unsupported
  indicator or for missing data, or an exception), the period's number, its three dates,
  its principal and its day count are as before; and the periods that a successful run of
  the endpoint commits carry the same values in these fields as the stored schedule. A
  run that fails is rolled back and commits nothing.
\<close>

theorem recalculation_rewrites_only_rate_fields:
  "(recalculate_with_historical_rates db now ind sp p = (p', exn)
      \<longrightarrow> period_number p' = period_number p
          \<and> period_start_date p' = period_start_date p
          \<and> period_end_date p' = period_end_date p
          \<and> payment_date p' = payment_date p
          \<and> principal_amount p' = principal_amount p
          \<and> period_days p' = period_days p)
   \<and> (recalculate_interest_with_historical_rates round_2 db now credit schedule = Inr response
      \<longrightarrow> map identity_fields (committed_periods response) = map identity_fields schedule)"
proof (intro conjI impI)
  assume a: "recalculate_with_historical_rates db now ind sp p = (p', exn)"
  have "identity_fields p' = identity_fields p"
    using identity_fields_method [of db now ind sp p] a by simp
  then show "period_number p' = period_number p" "period_start_date p' = period_start_date p"
    "period_end_date p' = period_end_date p" "payment_date p' = payment_date p"
    "principal_amount p' = principal_amount p" "period_days p' = period_days p"
    by (simp_all add: identity_fields_def)
next
  assume a: "recalculate_interest_with_historical_rates round_2 db now credit schedule
               = Inr response"
  then show "map identity_fields (committed_periods response) = map identity_fields schedule"
    by (auto simp: recalculate_interest_with_historical_rates_def Let_def
          split: option.splits if_splits sum.splits dest: recalculate_loop_frame)
qed

theorem recalculation_rewrites_only_rate_fields_witness:
  "base_rate (example_period 2 (mk_date 2024 7 1) (mk_date 2024 8 1)) = Some 16
   \<and> base_rate (fst (recalculate_with_historical_rates example_rates (mk_date 2025 1 1)
        ''KEY_RATE'' (5 / 2) (example_period 2 (mk_date 2024 7 1) (mk_date 2024 8 1)))) = Some 21
   \<and> period_number (fst (recalculate_with_historical_rates example_rates (mk_date 2025 1 1)
        ''KEY_RATE'' (5 / 2) (example_period 2 (mk_date 2024 7 1) (mk_date 2024 8 1)))) = 2
   \<and> period_days (fst (recalculate_with_historical_rates example_rates (mk_date 2025 1 1)
        ''KEY_RATE'' (5 / 2) (example_period 2 (mk_date 2024 7 1) (mk_date 2024 8 1)))) = Some 31
   \<and> \<not> isl (recalculate_interest_with_historical_rates id example_rates (mk_date 2025 1 1)
        (Some (example_credit (mk_date 2024 7 1) (mk_date 2024 8 1)))
        [example_period 2 (mk_date 2024 7 1) (mk_date 2024 8 1)])
   \<and> map identity_fields (committed_periods (projr
        (recalculate_interest_with_historical_rates id example_rates (mk_date 2025 1 1)
          (Some (example_credit (mk_date 2024 7 1) (mk_date 2024 8 1)))
          [example_period 2 (mk_date 2024 7 1) (mk_date 2024 8 1)])))
      = map identity_fields [example_period 2 (mk_date 2024 7 1) (mk_date 2024 8 1)]"
proof -
  let ?p = "example_period 2 (mk_date 2024 7 1) (mk_date 2024 8 1)"
  let ?m = "recalculate_with_historical_rates example_rates (mk_date 2025 1 1) ''KEY_RATE'' (5 / 2) ?p"
  let ?e = "recalculate_interest_with_historical_rates id example_rates (mk_date 2025 1 1)
        (Some (example_credit (mk_date 2024 7 1) (mk_date 2024 8 1))) [?p]"
  have a: "base_rate ?p = Some 16" "base_rate (fst ?m) = Some 21" "period_number ?p = 2"
    "period_days ?p = Some 31"
    by code_simp+
  have b: "\<not> isl ?e"
    by code_simp
  then have c: "?e = Inr (projr ?e)"
    by simp
  have d: "?m = (fst ?m, snd ?m)"
    by simp
  from recalculation_rewrites_only_rate_fields
         [of example_rates "mk_date 2025 1 1" "''KEY_RATE''" "5 / 2" ?p "fst ?m" "snd ?m" id
             "Some (example_credit (mk_date 2024 7 1) (mk_date 2024 8 1))" "[?p]" "projr ?e"]
       a b c d
  show ?thesis by simp
qed

text \<open>
  Claim C1, evaluated where it fails. The store has one rate, effective from 2024-06-03.
  For the period of January 2024, a past period, no rate is in force: the average is None,
  and the method's branch for it calls the unbound \<open>logger\<close> and raises NameError. The
  second period alone would be recalculated (its base rate becomes 21), but the endpoint
  stops at the exception, rolls back and answers with the HTTP error 500.
\<close>

theorem recalculation_aborts_without_history:
  "get_average_key_rate_for_period example_rates (mk_date 2024 1 1) (mk_date 2024 2 1) = None
   \<and> recalculate_with_historical_rates example_rates (mk_date 2025 1 1) ''KEY_RATE'' (5 / 2)
        (example_period 1 (mk_date 2024 1 1) (mk_date 2024 2 1))
      = (example_period 1 (mk_date 2024 1 1) (mk_date 2024 2 1), Some (NameError ''logger''))
   \<and> snd (recalculate_with_historical_rates example_rates (mk_date 2025 1 1) ''KEY_RATE'' (5 / 2)
        (example_period 2 (mk_date 2024 7 1) (mk_date 2024 8 1))) = None
   \<and> base_rate (fst (recalculate_with_historical_rates example_rates (mk_date 2025 1 1)
        ''KEY_RATE'' (5 / 2) (example_period 2 (mk_date 2024 7 1) (mk_date 2024 8 1)))) = Some 21
   \<and> recalculate_interest_with_historical_rates round_2 example_rates (mk_date 2025 1 1)
        (Some (example_credit (mk_date 2024 1 1) (mk_date 2024 8 1)))
        [example_period 1 (mk_date 2024 1 1) (mk_date 2024 2 1),
         example_period 2 (mk_date 2024 7 1) (mk_date 2024 8 1)]
      = Inl (HTTPException 500)"
  by code_simp

section \<open>Schedule generation\<close>

lemma linked_snoc:
  "linked a (ps @ [p]) b = (linked a ps (period_start_date p) \<and> period_end_date p = b)"
  by (induction ps arbitrary: a) auto

lemma linked_nth:
  "linked a ps b \<Longrightarrow> Suc i < length ps
   \<Longrightarrow> period_end_date (ps ! i) = period_start_date (ps ! Suc i)"
proof (induction ps arbitrary: a i)
  case Nil
  then show ?case by simp
next
  case (Cons p ps)
  show ?case
  proof (cases i)
    case 0
    with Cons.prems show ?thesis by (cases ps) auto
  next
    case (Suc j)
    with Cons.prems Cons.IH [of "period_end_date p" j] show ?thesis by simp
  qed
qed

lemma linked_last: "linked a ps b \<Longrightarrow> ps \<noteq> [] \<Longrightarrow> period_end_date (last ps) = b"
  by (induction ps arbitrary: a) (auto split: if_splits)

lemma linked_hd: "linked a ps b \<Longrightarrow> ps \<noteq> [] \<Longrightarrow> period_start_date (hd ps) = a"
  by (cases ps) auto

lemma new_payment_schedule_dates:
  "period_start_date (new_payment_schedule c s e n) = s"
  "period_end_date (new_payment_schedule c s e n) = e"
  "payment_date (new_payment_schedule c s e n) = e"
  "period_number (new_payment_schedule c s e n) = n"
  by (simp_all add: new_payment_schedule_def calculate_financials_def Let_def
        split: option.splits)

text \<open>One turn of the loop, as three cases.\<close>

lemma generate_loop_stop:
  "\<not> cs < credit_end_date c \<Longrightarrow> generate_loop c ov mi cs pn es = Inr (es, False)"
  by (subst generate_loop.simps) simp

lemma generate_loop_raise:
  "cs < credit_end_date c \<Longrightarrow> next_period_end cs mi ov = Inl e
   \<Longrightarrow> generate_loop c ov mi cs pn es = Inl e"
  by (subst generate_loop.simps) simp

lemma generate_loop_step:
  "cs < credit_end_date c \<Longrightarrow> next_period_end cs mi ov = Inr pe0
   \<Longrightarrow> pe = (if pe0 > credit_end_date c then credit_end_date c else pe0)
   \<Longrightarrow> es' = es @ [new_payment_schedule c cs pe pn]
   \<Longrightarrow> generate_loop c ov mi cs pn es =
         (if pn + 1 > 100 then Inr (es', True) else generate_loop c ov mi pe (pn + 1) es')"
  by (subst generate_loop.simps) (simp add: Let_def)

lemma next_period_end_error: "next_period_end cs mi ov = Inl e \<Longrightarrow> e = ValueError"
  by (auto simp: next_period_end_def Let_def split: prod.splits option.splits)

lemma generate_loop_linked:
  "generate_loop c ov mi cs pn es = Inr (ps, w) \<Longrightarrow> linked a es cs
   \<Longrightarrow> es \<noteq> [] \<longrightarrow> cs \<le> credit_end_date c
   \<Longrightarrow> \<exists>b. linked a ps b \<and> (ps \<noteq> [] \<longrightarrow> b \<le> credit_end_date c)
           \<and> (\<not> w \<longrightarrow> credit_end_date c \<le> b)"
proof (induction c ov mi cs pn es rule: generate_loop.induct)
  case (1 c ov mi cs pn es)
  show ?case
  proof (cases "cs < credit_end_date c")
    case False
    with "1.prems" show ?thesis
      by (auto simp: generate_loop_stop)
  next
    case True
    note lt = this
    show ?thesis
    proof (cases "next_period_end cs mi ov")
      case (Inl e)
      with "1.prems"(1) lt show ?thesis
        by (simp add: generate_loop_raise)
    next
      case (Inr pe0)
      define pe where "pe = (if pe0 > credit_end_date c then credit_end_date c else pe0)"
      define es' where "es' = es @ [new_payment_schedule c cs pe pn]"
      note step = generate_loop_step [OF lt Inr pe_def es'_def]
      have l': "linked a es' pe"
        using "1.prems"(2) by (simp add: es'_def linked_snoc new_payment_schedule_dates)
      have le: "pe \<le> credit_end_date c" by (simp add: pe_def)
      show ?thesis
      proof (cases "pn + 1 > 100")
        case True
        with "1.prems"(1) step have "ps = es'" "w" by simp_all
        with l' le show ?thesis by auto
      next
        case False
        with "1.prems"(1) step have r: "generate_loop c ov mi pe (pn + 1) es' = Inr (ps, w)"
          by simp
        from "1.IH" [OF lt Inr pe_def es'_def False r l'] le show ?thesis by simp
      qed
    qed
  qed
qed


lemma generate_loop_error:
  "generate_loop c ov mi cs pn es = Inl e \<Longrightarrow> e = ValueError"
proof (induction c ov mi cs pn es rule: generate_loop.induct)
  case (1 c ov mi cs pn es)
  show ?case
  proof (cases "cs < credit_end_date c")
    case False
    with "1.prems" show ?thesis
      by (simp add: generate_loop_stop)
  next
    case True
    note lt = this
    show ?thesis
    proof (cases "next_period_end cs mi ov")
      case (Inl e')
      with "1.prems" lt show ?thesis
        by (auto simp: generate_loop_raise dest: next_period_end_error)
    next
      case (Inr pe0)
      define pe where "pe = (if pe0 > credit_end_date c then credit_end_date c else pe0)"
      define es' where "es' = es @ [new_payment_schedule c cs pe pn]"
      note step = generate_loop_step [OF lt Inr pe_def es'_def]
      show ?thesis
      proof (cases "pn + 1 > 100")
        case True
        with "1.prems"(1) step show ?thesis by simp
      next
        case False
        with "1.prems"(1) step have r: "generate_loop c ov mi pe (pn + 1) es' = Inl e"
          by simp
        from "1.IH" [OF lt Inr pe_def es'_def False r] show ?thesis .
      qed
    qed
  qed
qed

text \<open>The principal has no part in the dates, the count or the failure of a schedule.\<close>

lemma generate_loop_principal:
  "generate_loop c ov mi cs pn es = Inr (ps, w)
   \<Longrightarrow> map period_dates es2 = map period_dates es
   \<Longrightarrow> \<exists>ps2. generate_loop (c\<lparr>credit_principal_amount := x\<rparr>) ov mi cs pn es2 = Inr (ps2, w)
             \<and> map period_dates ps2 = map period_dates ps"
proof (induction c ov mi cs pn es arbitrary: es2 rule: generate_loop.induct)
  case (1 c ov mi cs pn es)
  let ?c = "c\<lparr>credit_principal_amount := x\<rparr>"
  have ce: "credit_end_date ?c = credit_end_date c" by simp
  show ?case
  proof (cases "cs < credit_end_date c")
    case False
    with "1.prems" show ?thesis
      by (auto simp: generate_loop_stop)
  next
    case True
    note lt = this
    then have lt2: "cs < credit_end_date ?c" by simp
    show ?thesis
    proof (cases "next_period_end cs mi ov")
      case (Inl e)
      with "1.prems"(1) lt show ?thesis
        by (simp add: generate_loop_raise)
    next
      case (Inr pe0)
      define pe where "pe = (if pe0 > credit_end_date c then credit_end_date c else pe0)"
      define es' where "es' = es @ [new_payment_schedule c cs pe pn]"
      define es2' where "es2' = es2 @ [new_payment_schedule ?c cs pe pn]"
      note step = generate_loop_step [OF lt Inr pe_def es'_def]
      have pe2: "pe = (if pe0 > credit_end_date ?c then credit_end_date ?c else pe0)"
        by (simp add: pe_def)
      note step2 = generate_loop_step [OF lt2 Inr pe2 es2'_def]
      have "period_dates (new_payment_schedule ?c cs pe pn)
              = period_dates (new_payment_schedule c cs pe pn)"
        by (simp add: period_dates_def new_payment_schedule_dates)
      with "1.prems"(2) have m: "map period_dates es2' = map period_dates es'"
        by (simp add: es'_def es2'_def)
      show ?thesis
      proof (cases "pn + 1 > 100")
        case True
        with "1.prems"(1) step have "ps = es'" "w" by simp_all
        with True step2 m show ?thesis by simp
      next
        case False
        with "1.prems"(1) step have r: "generate_loop c ov mi pe (pn + 1) es' = Inr (ps, w)"
          by simp
        from "1.IH" [OF lt Inr pe_def es'_def False r m] False step2 show ?thesis by simp
      qed
    qed
  qed
qed

lemma generate_loop_same:
  "credit_end_date c2 = credit_end_date c
   \<Longrightarrow> (\<And>s e n. new_payment_schedule c2 s e n = new_payment_schedule c s e n)
   \<Longrightarrow> generate_loop c2 ov mi cs pn es = generate_loop c ov mi cs pn es"
proof (induction c ov mi cs pn es rule: generate_loop.induct)
  case (1 c ov mi cs pn es)
  show ?case
  proof (cases "cs < credit_end_date c")
    case False
    with "1.prems"(1) show ?thesis
      by (simp add: generate_loop_stop)
  next
    case True
    note lt = this
    with "1.prems"(1) have lt2: "cs < credit_end_date c2" by simp
    show ?thesis
    proof (cases "next_period_end cs mi ov")
      case (Inl e)
      with lt lt2 show ?thesis
        by (simp add: generate_loop_raise)
    next
      case (Inr pe0)
      define pe where "pe = (if pe0 > credit_end_date c then credit_end_date c else pe0)"
      define es' where "es' = es @ [new_payment_schedule c cs pe pn]"
      have pe2: "pe = (if pe0 > credit_end_date c2 then credit_end_date c2 else pe0)"
        by (simp add: pe_def "1.prems"(1))
      have es2: "es' = es @ [new_payment_schedule c2 cs pe pn]"
        by (simp add: es'_def "1.prems"(2))
      note step = generate_loop_step [OF lt Inr pe_def es'_def]
      note step2 = generate_loop_step [OF lt2 Inr pe2 es2]
      show ?thesis
      proof (cases "pn + 1 > 100")
        case True
        with step step2 show ?thesis by simp
      next
        case False
        from "1.IH" [OF lt Inr pe_def es'_def False "1.prems"] False step step2
        show ?thesis by simp
      qed
    qed
  qed
qed


text \<open>
  Two schedules of the example credit, summarised: ten years of monthly periods from
  2000-01-01 (the safety check stops the loop after 100 periods, the last one ending on
  2008-05-31), and the year 2024 (12 periods, the last one ending on 2025-01-01).
\<close>

lemma ten_year_schedule:
  "map_sum id (\<lambda>(ps, w, db'). (length ps, w, period_end_date (last ps)))
     (generate_payment_schedule (example_credit (mk_date 2000 1 1) (mk_date 2010 1 1)) [] None)
   = Inr (100, True, mk_date 2008 5 31)"
  by code_simp

lemma one_year_schedule:
  "map_sum id (\<lambda>(ps, w, db'). (length ps, w, period_end_date (last ps)))
     (generate_payment_schedule (example_credit (mk_date 2024 1 1) (mk_date 2025 1 1)) [] None)
   = Inr (12, False, mk_date 2025 1 1)"
  by code_simp

lemma example_credit_fields:
  "credit_start_date (example_credit sd ed) = sd"
  "credit_end_date (example_credit sd ed) = ed"
  by (simp_all add: example_credit_def)



text \<open>
  Claim C3 as stated fails: the ten-year monthly credit gets 100 periods, and the last of
  them ends on 2008-05-31, not on the credit's end date 2010-01-01.
\<close>

theorem final_period_end_counterexample:
  "\<not> (\<forall>c db ov ps w db'.
        generate_payment_schedule c db ov = Inr (ps, w, db') \<longrightarrow>
          (\<forall>i. Suc i < length ps
             \<longrightarrow> period_end_date (ps ! i) = period_start_date (ps ! Suc i))
          \<and> (ps \<noteq> [] \<longrightarrow> period_end_date (last ps) = credit_end_date c))"
proof
  let ?c = "example_credit (mk_date 2000 1 1) (mk_date 2010 1 1)"
  assume a: "\<forall>c db ov ps w db'.
        generate_payment_schedule c db ov = Inr (ps, w, db') \<longrightarrow>
          (\<forall>i. Suc i < length ps
             \<longrightarrow> period_end_date (ps ! i) = period_start_date (ps ! Suc i))
          \<and> (ps \<noteq> [] \<longrightarrow> period_end_date (last ps) = credit_end_date c)"
  from ten_year_schedule obtain ps w d where
    g: "generate_payment_schedule ?c [] None = Inr (ps, w, d)"
    and l: "length ps = 100" and e: "period_end_date (last ps) = mk_date 2008 5 31"
    by (cases "generate_payment_schedule ?c [] None") auto
  from l have "ps \<noteq> []" by auto
  with a g have "period_end_date (last ps) = credit_end_date ?c" by blast
  with e have "mk_date 2008 5 31 = mk_date 2010 1 1"
    by (simp add: example_credit_fields)
  then show False by code_simp
qed

text \<open>
  Claim C3, amended. In every generated schedule each period starts where the one before
  it ends, and the first starts on the credit's start date; the last period ends on the
  credit's end date when the loop was not stopped by the safety check of 100 periods.
\<close>

theorem schedule_contiguous:
  "generate_payment_schedule c db ov = Inr (ps, w, db') \<Longrightarrow>
     (\<forall>i. Suc i < length ps \<longrightarrow> period_end_date (ps ! i) = period_start_date (ps ! Suc i))
     \<and> (ps \<noteq> [] \<longrightarrow> period_start_date (hd ps) = credit_start_date c)
     \<and> (ps \<noteq> [] \<and> \<not> w \<longrightarrow> period_end_date (last ps) = credit_end_date c)"
proof -
  assume g: "generate_payment_schedule c db ov = Inr (ps, w, db')"
  let ?mi = "month_increment_of (credit_payment_frequency c)"
  from g have l: "generate_loop c ov ?mi (credit_start_date c) 1 [] = Inr (ps, w)"
    by (auto simp: generate_payment_schedule_def Let_def split: sum.splits)
  from generate_loop_linked [OF l, of "credit_start_date c"] obtain b where
    b: "linked (credit_start_date c) ps b" "ps \<noteq> [] \<longrightarrow> b \<le> credit_end_date c"
       "\<not> w \<longrightarrow> credit_end_date c \<le> b"
    by auto
  have "period_end_date (ps ! i) = period_start_date (ps ! Suc i)" if "Suc i < length ps" for i
    using linked_nth [OF b(1) that] .
  moreover have "period_start_date (hd ps) = credit_start_date c" if "ps \<noteq> []"
    using linked_hd [OF b(1) that] .
  moreover have "period_end_date (last ps) = credit_end_date c" if "ps \<noteq> []" "\<not> w"
    using linked_last [OF b(1) that(1)] b(2,3) that by simp
  ultimately show ?thesis by blast
qed

theorem schedule_contiguous_witness:
  "\<not> isl (generate_payment_schedule (example_credit (mk_date 2024 1 1) (mk_date 2025 1 1)) [] None)
   \<and> period_end_date (fst (projr (generate_payment_schedule
         (example_credit (mk_date 2024 1 1) (mk_date 2025 1 1)) [] None)) ! 0)
     = period_start_date (fst (projr (generate_payment_schedule
         (example_credit (mk_date 2024 1 1) (mk_date 2025 1 1)) [] None)) ! 1)
   \<and> period_start_date (hd (fst (projr (generate_payment_schedule
         (example_credit (mk_date 2024 1 1) (mk_date 2025 1 1)) [] None)))) = mk_date 2024 1 1
   \<and> period_end_date (last (fst (projr (generate_payment_schedule
         (example_credit (mk_date 2024 1 1) (mk_date 2025 1 1)) [] None)))) = mk_date 2025 1 1"
proof -
  let ?c = "example_credit (mk_date 2024 1 1) (mk_date 2025 1 1)"
  from one_year_schedule obtain ps w d where
    g: "generate_payment_schedule ?c [] None = Inr (ps, w, d)"
    and l: "length ps = 12" and w: "\<not> w"
    by (cases "generate_payment_schedule ?c [] None") auto
  from l have n: "ps \<noteq> []" "Suc 0 < length ps" by auto
  from schedule_contiguous [OF g] n w show ?thesis
    unfolding g by (simp add: example_credit_fields)
qed

section \<open>Generation does not validate the credit\<close>

text \<open>
  Claim C2 as stated fails: for a credit whose end date is its start date, generation
  raises nothing and returns the empty schedule.
\<close>

theorem no_validation_counterexample:
  "\<not> (\<forall>c db ov.
        credit_end_date c \<le> credit_start_date c \<or> credit_principal_amount c \<le> 0
          \<or> (\<forall>f. credit_payment_frequency c \<noteq> Member f)
        \<longrightarrow> (\<exists>e. generate_payment_schedule c db ov = Inl e))"
proof
  let ?c = "example_credit (mk_date 2024 1 1) (mk_date 2024 1 1)"
  assume "\<forall>c db ov.
        credit_end_date c \<le> credit_start_date c \<or> credit_principal_amount c \<le> 0
          \<or> (\<forall>f. credit_payment_frequency c \<noteq> Member f)
        \<longrightarrow> (\<exists>e. generate_payment_schedule c db ov = Inl e)"
  moreover have "credit_end_date ?c \<le> credit_start_date ?c"
    by (simp add: example_credit_fields)
  ultimately obtain e where "generate_payment_schedule ?c [] None = Inl e"
    by blast
  moreover have "generate_payment_schedule ?c [] None = Inr ([], False, [])"
    by (simp add: generate_payment_schedule_def generate_loop_stop example_credit_fields)
  ultimately show False by simp
qed

text \<open>
  Claim C2, amended. Generation does not validate the credit and raises no validation
  error. With an end date not after the start date it makes and stores no period and
  returns the empty schedule. A frequency that is not a member of the enum is treated as
  MONTHLY. The principal is not examined: with any other principal, also a non-positive
  one, generation succeeds exactly as before, with the same warning and with periods of
  the same numbers and dates. The only error of generation is the ValueError of a date
  that cannot be built.
\<close>

theorem generation_without_validation:
  "(credit_end_date c \<le> credit_start_date c
      \<longrightarrow> generate_payment_schedule c db ov = Inr ([], False, db))
   \<and> generate_payment_schedule (c\<lparr>credit_payment_frequency := Other_object s\<rparr>) db ov
     = generate_payment_schedule (c\<lparr>credit_payment_frequency := Member MONTHLY\<rparr>) db ov
   \<and> (generate_payment_schedule c db ov = Inr (ps, w, db')
      \<longrightarrow> (\<exists>ps2 db2.
            generate_payment_schedule (c\<lparr>credit_principal_amount := x\<rparr>) db ov
              = Inr (ps2, w, db2)
            \<and> map period_dates ps2 = map period_dates ps))
   \<and> (generate_payment_schedule c db ov = Inl e \<longrightarrow> e = ValueError)"
proof (intro conjI impI)
  assume "credit_end_date c \<le> credit_start_date c"
  then show "generate_payment_schedule c db ov = Inr ([], False, db)"
    by (simp add: generate_payment_schedule_def generate_loop_stop)
next
  let ?a = "c\<lparr>credit_payment_frequency := Other_object s\<rparr>"
  let ?b = "c\<lparr>credit_payment_frequency := Member MONTHLY\<rparr>"
  have m: "month_increment_of (Other_object s) = month_increment_of (Member MONTHLY)"
    by (simp add: month_increment_of_def period_increment_def)
  have "generate_loop ?a ov mi cs pn es = generate_loop ?b ov mi cs pn es" for mi cs pn es
    by (rule generate_loop_same) (simp_all add: new_payment_schedule_def)
  with m show "generate_payment_schedule ?a db ov = generate_payment_schedule ?b db ov"
    by (simp add: generate_payment_schedule_def)
next
  let ?mi = "month_increment_of (credit_payment_frequency c)"
  assume g: "generate_payment_schedule c db ov = Inr (ps, w, db')"
  then have l: "generate_loop c ov ?mi (credit_start_date c) 1 [] = Inr (ps, w)"
    by (auto simp: generate_payment_schedule_def Let_def split: sum.splits)
  from generate_loop_principal [OF l, of "[]" x] obtain ps2 where
    "generate_loop (c\<lparr>credit_principal_amount := x\<rparr>) ov ?mi (credit_start_date c) 1 []
       = Inr (ps2, w)"
    "map period_dates ps2 = map period_dates ps"
    by auto
  then show "\<exists>ps2 db2.
            generate_payment_schedule (c\<lparr>credit_principal_amount := x\<rparr>) db ov
              = Inr (ps2, w, db2)
            \<and> map period_dates ps2 = map period_dates ps"
    by (simp add: generate_payment_schedule_def)
next
  assume "generate_payment_schedule c db ov = Inl e"
  then have "generate_loop c ov (month_increment_of (credit_payment_frequency c))
               (credit_start_date c) 1 [] = Inl e"
    by (auto simp: generate_payment_schedule_def Let_def split: sum.splits)
  then show "e = ValueError"
    by (rule generate_loop_error)
qed

theorem generation_without_validation_witness:
  "generate_payment_schedule (example_credit (mk_date 2024 1 1) (mk_date 2023 1 1)) [] None
     = Inr ([], False, [])
   \<and> \<not> isl (generate_payment_schedule (example_credit (mk_date 2024 1 1) (mk_date 2025 1 1)) [] None)
   \<and> (\<exists>ps2 db2.
         generate_payment_schedule
           ((example_credit (mk_date 2024 1 1) (mk_date 2025 1 1))\<lparr>credit_principal_amount := - 5\<rparr>)
           [] None = Inr (ps2, False, db2)
         \<and> length ps2 = 12)
   \<and> generate_payment_schedule (example_credit (mk_date 9999 12 1) (mk_date 9999 12 31)) [] None
     = Inl ValueError"
proof -
  let ?c = "example_credit (mk_date 2024 1 1) (mk_date 2025 1 1)"
  let ?z = "example_credit (mk_date 2024 1 1) (mk_date 2023 1 1)"
  let ?y = "example_credit (mk_date 9999 12 1) (mk_date 9999 12 31)"
  from one_year_schedule obtain ps w d where
    g: "generate_payment_schedule ?c [] None = Inr (ps, w, d)"
    and l: "length ps = 12" and w: "\<not> w"
    by (cases "generate_payment_schedule ?c [] None") auto
  have z: "credit_end_date ?z \<le> credit_start_date ?z"
    by code_simp
  have y: "isl (generate_payment_schedule ?y [] None)"
    by code_simp
  then obtain e where e: "generate_payment_schedule ?y [] None = Inl e"
    by (cases "generate_payment_schedule ?y [] None") auto
  from generation_without_validation [of ?z "[]" None s ps w d x e]
       z
  have 1: "generate_payment_schedule ?z [] None = Inr ([], False, [])"
    by simp
  from generation_without_validation [of ?c "[]" None s ps w d "- 5" e] g
  obtain ps2 db2 where
    p: "generate_payment_schedule (?c\<lparr>credit_principal_amount := - 5\<rparr>) [] None
          = Inr (ps2, w, db2)"
    and m: "map period_dates ps2 = map period_dates ps"
    by blast
  from m have "length ps2 = length ps"
    by (rule map_eq_imp_length_eq)
  with p l w have 2: "\<exists>ps2 db2.
         generate_payment_schedule (?c\<lparr>credit_principal_amount := - 5\<rparr>) [] None
           = Inr (ps2, False, db2) \<and> length ps2 = 12"
    by auto
  from generation_without_validation [of ?y "[]" None s ps w d x e] e
  have 3: "generate_payment_schedule ?y [] None = Inl ValueError"
    by simp
  from 1 2 3 g show ?thesis by simp
qed

section \<open>The upsert\<close>

lemma first_filter_None: "first (filter P xs) = None \<longleftrightarrow> (\<forall>x \<in> set xs. \<not> P x)"
  by (induction xs) (auto simp: first_def)

lemma first_filter_Some: "first (filter P xs) = Some x \<Longrightarrow> x \<in> set xs \<and> P x"
  by (induction xs) (auto simp: first_def split: if_splits)

lemma length_update_first: "length (update_first P f xs) = length xs"
  by (induction xs) auto

lemma map_update_first: "(\<And>x. k (f x) = k x) \<Longrightarrow> map k (update_first P f xs) = map k xs"
  by (induction xs) auto

lemma nth_update_first:
  "i < length xs \<Longrightarrow> \<not> P (xs ! i) \<Longrightarrow> update_first P f xs ! i = xs ! i"
proof (induction xs arbitrary: i)
  case Nil
  then show ?case by simp
next
  case (Cons x xs)
  then show ?case by (cases i) auto
qed

lemma first_filter_update_first:
  "first (filter P xs) = Some x \<Longrightarrow> P (f x)
   \<Longrightarrow> first (filter P (update_first P f xs)) = Some (f x)"
  by (induction xs) (auto simp: first_def split: if_splits)

lemma filter_single:
  "distinct (map k xs) \<Longrightarrow> x \<in> set xs \<Longrightarrow> filter (\<lambda>y. k y = k x) xs = [x]"
proof (induction xs)
  case Nil
  then show ?case by simp
next
  case (Cons y ys)
  show ?case
  proof (cases "y = x")
    case True
    with Cons.prems have "k x \<notin> set (map k ys)" by simp
    then have "\<forall>z \<in> set ys. k z \<noteq> k x" by (auto simp: image_iff)
    then have "filter (\<lambda>y. k y = k x) ys = []" by (simp add: filter_empty_conv)
    with True show ?thesis by simp
  next
    case False
    with Cons.prems have "x \<in> set ys" "k y \<noteq> k x" by force+
    with Cons show ?thesis by simp
  qed
qed

lemma first_Some_filter_single:
  "distinct (map k xs) \<Longrightarrow> first (filter (\<lambda>y. k y = d) xs) = Some x
   \<Longrightarrow> filter (\<lambda>y. k y = d) xs = [x]"
  using filter_single [of k xs x] first_filter_Some [of "\<lambda>y. k y = d" xs x] by auto

section \<open>The point lookup and the degenerate range\<close>

lemma first_rev: "first (rev xs) = (if xs = [] then None else Some (last xs))"
  by (cases xs rule: rev_cases) (simp_all add: first_def)

lemma sorted_le_last: "sorted xs \<Longrightarrow> x \<in> set xs \<Longrightarrow> x \<le> last xs"
  by (induction xs) auto

lemma distinct_map_sort_key: "distinct (map f (sort_key f xs)) = distinct (map f xs)"
  by (induction xs) (simp_all add: distinct_insort_key)

lemma sort_key_Nil_iff: "sort_key f xs = [] \<longleftrightarrow> xs = []"
  by (metis length_sort length_0_conv)

lemma last_sort_key:
  assumes "xs \<noteq> []"
  shows "last (sort_key f xs) \<in> set xs \<and> (\<forall>y \<in> set xs. f y \<le> f (last (sort_key f xs)))"
proof -
  let ?s = "sort_key f xs"
  from assms have ne: "?s \<noteq> []"
    by (metis length_sort length_0_conv)
  then have "last ?s \<in> set ?s" by (rule last_in_set)
  then have a: "last ?s \<in> set xs" by simp
  have "f y \<le> f (last ?s)" if "y \<in> set xs" for y
  proof -
    from that have "f y \<in> set (map f ?s)" by simp
    with sorted_le_last [of "map f ?s" "f y"] have "f y \<le> last (map f ?s)" by simp
    with ne show ?thesis by (simp add: last_map)
  qed
  with a show ?thesis by blast
qed

text \<open>
  \<open>get_rate_on_date\<close> finds a row of the greatest effective date not after the target,
  and none exactly when no row is effective by then.
\<close>

lemma get_rate_on_date_None:
  "get_rate_on_date db t = None \<longleftrightarrow> (\<forall>r \<in> set db. \<not> effective_date r \<le> t)"
  by (simp add: get_rate_on_date_def order_by_effective_date_desc_def first_rev
        sort_key_Nil_iff filter_empty_conv)

lemma get_rate_on_date_Some:
  assumes "get_rate_on_date db t = Some y"
  shows "y \<in> set db \<and> effective_date y \<le> t
         \<and> (\<forall>r \<in> set db. effective_date r \<le> t \<longrightarrow> effective_date r \<le> effective_date y)"
proof -
  let ?l = "filter (\<lambda>r. effective_date r \<le> t) db"
  from assms have ne: "?l \<noteq> []" and y: "y = last (sort_key effective_date ?l)"
    by (auto simp: get_rate_on_date_def order_by_effective_date_desc_def first_rev
          sort_key_Nil_iff split: if_splits)
  from last_sort_key [OF ne, of effective_date] y show ?thesis by auto
qed

lemma get_rate_on_date_exact:
  assumes "distinct (map effective_date db)" "x \<in> set db"
  shows "get_rate_on_date db (effective_date x) = Some x"
proof (cases "get_rate_on_date db (effective_date x)")
  case None
  with assms(2) show ?thesis by (auto simp: get_rate_on_date_None)
next
  case (Some y)
  from get_rate_on_date_Some [OF Some] assms(2)
  have "y \<in> set db" "effective_date y = effective_date x" by force+
  with assms have "y = x"
    by (meson distinct_map inj_onD)
  with Some show ?thesis by simp
qed

lemma timedelta_days_same: "timedelta_days t t = 0"
  by (simp add: timedelta_days_def)

section \<open>The average over a range\<close>

lemma timedelta_days_nonneg: "a \<le> b \<Longrightarrow> 0 \<le> timedelta_days b a"
  by (simp add: timedelta_days_def usec_per_day_def pos_imp_zdiv_nonneg_iff)

text \<open>
  The loop over points that lie in the range in strictly ascending order adds up the
  pieces between them: each point's rate from its effective date to the next one's, the
  last one's to the end of the range.
\<close>

lemma average_loop_segments:
  assumes "sorted_wrt (<) (map effective_date (p # w))"
    and "\<forall>q \<in> set (p # w). s \<le> effective_date q \<and> effective_date q \<le> e"
    and "\<forall>q \<in> set (p # w). f (effective_date q) = Some (rate q)"
  shows "average_loop (p # w) s e (ws, tw) =
           (ws + fst (whole_day_sums f (effective_date p
                  # map effective_date (filter (\<lambda>r. effective_date r < e) w) @ [e])),
            tw + snd (whole_day_sums f (effective_date p
                  # map effective_date (filter (\<lambda>r. effective_date r < e) w) @ [e])))"
  using assms
proof (induction w arbitrary: p ws tw)
  case Nil
  then have b: "s \<le> effective_date p" "effective_date p \<le> e"
    and f: "f (effective_date p) = Some (rate p)"
    by simp_all
  from b(1) have m: "max (effective_date p) s = effective_date p" by simp
  from timedelta_days_nonneg [OF b(2)] f m show ?case
    by (auto simp: Let_def)
next
  case (Cons q w)
  from Cons.prems have b: "s \<le> effective_date p" "effective_date p \<le> e"
    "s \<le> effective_date q" "effective_date q \<le> e"
    and lt: "effective_date p < effective_date q"
    and fp: "f (effective_date p) = Some (rate p)"
    and fq: "f (effective_date q) = Some (rate q)"
    by simp_all
  from b(1) have m: "max (effective_date p) s = effective_date p" by simp
  from b(4) have n: "min (effective_date q) e = effective_date q" by simp
  from lt have d: "0 \<le> timedelta_days (effective_date q) (effective_date p)"
    by (simp add: timedelta_days_nonneg)
  define dd where "dd = timedelta_days (effective_date q) (effective_date p)"
  have q: "sorted_wrt (<) (map effective_date (q # w))"
    "\<forall>r \<in> set (q # w). s \<le> effective_date r \<and> effective_date r \<le> e"
    "\<forall>r \<in> set (q # w). f (effective_date r) = Some (rate r)"
    using Cons.prems by simp_all
  have step: "average_loop (p # q # w) s e (ws, tw)
      = average_loop (q # w) s e (ws + rate p * real_of_int dd, tw + dd)"
    using d m n by (auto simp: Let_def dd_def)
  note ih = Cons.IH [OF q, of "ws + rate p * real_of_int dd" "tw + dd"]
  show ?case
  proof (cases "effective_date q < e")
    case True
    with ih step fp show ?thesis
      by (simp add: Let_def dd_def split: prod.splits)
  next
    case False
    with b(4) have qe: "effective_date q = e" by simp
    from q(1) have "\<forall>r \<in> set w. effective_date q < effective_date r" by simp
    with q(2) qe have "w = []" by (cases w) auto
    with ih step fp fq qe show ?thesis
      by (simp add: Let_def dd_def timedelta_days_same)
  qed
qed

lemma window_points:
  fixes db :: "cbr_key_rate list" and s e :: datetime
  assumes "distinct (map effective_date db)"
  defines "w \<equiv> order_by_effective_date
                 (filter (\<lambda>r. effective_date r \<ge> s \<and> effective_date r \<le> e) db)"
  shows "sorted_wrt (<) (map effective_date w)"
    and "\<forall>q \<in> set w. s \<le> effective_date q \<and> effective_date q \<le> e"
    and "\<forall>q \<in> set w. get_key_rate_on_date db (effective_date q) = Some (rate q)"
    and "filter (\<lambda>r. s < effective_date r \<and> effective_date r < e) (order_by_effective_date db)
         = filter (\<lambda>r. s < effective_date r \<and> effective_date r < e) w"
proof -
  have "distinct (map effective_date w)"
    using assms(1) by (simp add: w_def order_by_effective_date_def distinct_map_sort_key
        distinct_map_filter)
  then show "sorted_wrt (<) (map effective_date w)"
    by (simp add: strict_sorted_iff w_def order_by_effective_date_def)
  show "\<forall>q \<in> set w. s \<le> effective_date q \<and> effective_date q \<le> e"
    by (simp add: w_def order_by_effective_date_def)
  show "\<forall>q \<in> set w. get_key_rate_on_date db (effective_date q) = Some (rate q)"
    using get_rate_on_date_exact [OF assms(1)]
    by (simp add: w_def order_by_effective_date_def get_key_rate_on_date_def)
  have "filter (\<lambda>x. s \<le> effective_date x \<and> effective_date x \<le> e
                    \<and> s < effective_date x \<and> effective_date x < e) db
        = filter (\<lambda>r. s < effective_date r \<and> effective_date r < e) db"
    by (rule filter_cong) auto
  then show "filter (\<lambda>r. s < effective_date r \<and> effective_date r < e)
           (order_by_effective_date db)
         = filter (\<lambda>r. s < effective_date r \<and> effective_date r < e) w"
    by (simp add: w_def order_by_effective_date_def filter_sort)
qed

text \<open>The result of the range query when some point lies in the range.\<close>

lemma average_with_points:
  assumes "order_by_effective_date
             (filter (\<lambda>r. effective_date r \<ge> s \<and> effective_date r \<le> e) db) = p # w"
    and "timedelta_days e s \<noteq> 0"
    and "average_loop (p # w) s e (0, 0) = (ws, tw)"
  shows "get_average_key_rate_for_period db s e =
           (let (ws', tw') =
                  (if effective_date p > s
                   then (case get_key_rate_on_date db s of
                           Some r \<Rightarrow>
                             (r * real_of_int (timedelta_days (effective_date p) s) + ws,
                              timedelta_days (effective_date p) s + tw)
                         | None \<Rightarrow> (ws, tw))
                   else (ws, tw))
            in if tw' = 0 then None else Some (ws' / real_of_int tw'))"
  using assms
  by (simp add: get_average_key_rate_for_period_def get_key_rate_on_date_def Let_def
        add.commute split: option.splits)

lemma average_is_whole_day_average:
  assumes di: "distinct (map effective_date db)" and nz: "timedelta_days e s \<noteq> 0"
  shows "get_average_key_rate_for_period db s e = whole_day_average db s e"
proof -
  define w where "w = order_by_effective_date
                        (filter (\<lambda>r. effective_date r \<ge> s \<and> effective_date r \<le> e) db)"
  let ?f = "get_key_rate_on_date db"
  let ?inner = "filter (\<lambda>r. s < effective_date r \<and> effective_date r < e)"
  note wp = window_points [OF di, of s e, folded w_def]
  show ?thesis
  proof (cases w)
    case Nil
    with wp(4) have "?inner (order_by_effective_date db) = []" by simp
    with nz Nil show ?thesis
      by (simp add: get_average_key_rate_for_period_def whole_day_average_def Let_def
            w_def [symmetric] get_key_rate_on_date_def split: option.splits)
  next
    case (Cons p w')
    let ?cuts = "effective_date p # map effective_date (filter (\<lambda>r. effective_date r < e) w') @ [e]"
    obtain ws tw where ss: "whole_day_sums ?f ?cuts = (ws, tw)"
      by (cases "whole_day_sums ?f ?cuts")
    from wp(1,2,3) Cons have
      "average_loop (p # w') s e (0, 0)
         = (0 + fst (whole_day_sums ?f ?cuts), 0 + snd (whole_day_sums ?f ?cuts))"
      by (intro average_loop_segments) simp_all
    with ss have loop: "average_loop (p # w') s e (0, 0) = (ws, tw)" by simp
    note code = average_with_points [OF Cons [unfolded w_def] nz loop]
    from wp(1) Cons have after: "\<forall>q \<in> set w'. effective_date p < effective_date q" by simp
    from wp(2) Cons have b: "s \<le> effective_date p" "effective_date p \<le> e"
      and bw: "\<forall>q \<in> set w'. effective_date q \<le> e" by simp_all
    from after b(1) have fw: "?inner w' = filter (\<lambda>r. effective_date r < e) w'"
      by (intro filter_cong) auto
    have inner: "?inner (order_by_effective_date db)
                   = (if s < effective_date p \<and> effective_date p < e then [p] else []) @
                     filter (\<lambda>r. effective_date r < e) w'"
      using wp(4) Cons fw by simp
    show ?thesis
    proof (cases "s < effective_date p")
      case False
      with b(1) have "effective_date p = s" by simp
      with code inner ss show ?thesis
        by (simp add: whole_day_average_def Let_def)
    next
      case True
      note gt = this
      show ?thesis
      proof (cases "effective_date p < e")
        case True
        with gt code inner ss show ?thesis
          by (simp add: whole_day_average_def Let_def split: option.splits)
      next
        case False
        with b(2) have pe: "effective_date p = e" by simp
        with after bw have "w' = []" by (cases w') auto
        with pe ss wp(3) Cons have "ws = 0" "tw = 0"
          by (auto simp: timedelta_days_same)
        with gt pe code inner \<open>w' = []\<close> show ?thesis
          by (simp add: whole_day_average_def Let_def split: option.splits)
      qed
    qed
  qed
qed

lemma three_points_average:
  "get_average_key_rate_for_period
     [rate_point d0 10, rate_point (d0 + 10 * usec_per_day) 20,
      rate_point (d0 + 20 * usec_per_day) 30]
     d0 (d0 + 30 * usec_per_day) = Some 20"
  by (simp add: get_average_key_rate_for_period_def order_by_effective_date_def
        timedelta_days_def usec_per_day_def rate_point_def Let_def)

lemma pre_window_gap_average:
  "get_average_key_rate_for_period
     [rate_point (d0 + 5 * usec_per_day) 15, rate_point (d0 - 10 * usec_per_day) 5]
     d0 (d0 + 10 * usec_per_day) = Some 10"
  by (simp add: get_average_key_rate_for_period_def order_by_effective_date_def
        get_rate_on_date_def order_by_effective_date_desc_def first_def
        timedelta_days_def usec_per_day_def rate_point_def Let_def)

text \<open>
  Claim C9 as stated fails. Two rows with one effective date (as two entries of one
  announcement date in one batch leave them): over the range from that date to itself the
  range query answers with the first of them, rate 21, and the point lookup with the
  other, rate 18.
\<close>

theorem degenerate_range_counterexample:
  "\<not> (\<forall>db d. get_average_key_rate_for_period db d d = get_key_rate_on_date db d)"
proof
  let ?db = "[rate_point (mk_date 2024 7 28) 21, rate_point (mk_date 2024 7 28) 18]"
  assume "\<forall>db d. get_average_key_rate_for_period db d d = get_key_rate_on_date db d"
  then have "get_average_key_rate_for_period ?db (mk_date 2024 7 28) (mk_date 2024 7 28)
               = get_key_rate_on_date ?db (mk_date 2024 7 28)"
    by blast
  moreover have "get_average_key_rate_for_period ?db (mk_date 2024 7 28) (mk_date 2024 7 28)
                   = Some 21"
    by code_simp
  moreover have "get_key_rate_on_date ?db (mk_date 2024 7 28) = Some 18"
    by code_simp
  ultimately show False by simp
qed

lemma get_key_rate_on_date_None:
  "get_key_rate_on_date db d = None \<longleftrightarrow> (\<forall>r \<in> set db. \<not> effective_date r \<le> d)"
  using get_rate_on_date_None [of db d]
  by (cases "get_rate_on_date db d") (simp_all add: get_key_rate_on_date_def)

lemma get_key_rate_on_date_Some:
  assumes "get_key_rate_on_date db d = Some v"
  shows "\<exists>r \<in> set db. rate r = v \<and> effective_date r \<le> d
           \<and> (\<forall>r' \<in> set db. effective_date r' \<le> d
                 \<longrightarrow> effective_date r' \<le> effective_date r)"
proof -
  from assms obtain y where "get_rate_on_date db d = Some y" "rate y = v"
    by (auto simp: get_key_rate_on_date_def split: option.splits)
  with get_rate_on_date_Some [of db d y] show ?thesis by blast
qed

text \<open>The range from a date to itself: the first row effective on the date, or the lookup.\<close>

lemma degenerate_range_cases:
  "get_average_key_rate_for_period db d d =
     (case order_by_effective_date (filter (\<lambda>r. effective_date r = d) db) of
        [] \<Rightarrow> get_key_rate_on_date db d
      | r0 # _ \<Rightarrow> Some (rate r0))"
proof -
  have "filter (\<lambda>r. effective_date r \<ge> d \<and> effective_date r \<le> d) db
          = filter (\<lambda>r. effective_date r = d) db"
    by (rule filter_cong) auto
  then show ?thesis
    by (simp add: get_average_key_rate_for_period_def get_key_rate_on_date_def
          timedelta_days_same split: list.splits)
qed

text \<open>
  Claim C9, amended. For every date and every store, the average over the range from the
  date to itself is, like the point lookup on the date, the rate of a point with the
  greatest effective date not after it, and None exactly when no point is effective by
  then. When no two points of the store share an effective date, that point is the same
  for both, and the two queries return the same result.
\<close>

theorem degenerate_range_is_point_lookup:
  "(get_average_key_rate_for_period db d d = None
      \<longleftrightarrow> (\<forall>r \<in> set db. \<not> effective_date r \<le> d))
   \<and> (\<forall>v. get_average_key_rate_for_period db d d = Some v \<longrightarrow>
          (\<exists>r \<in> set db. rate r = v \<and> effective_date r \<le> d
             \<and> (\<forall>r' \<in> set db. effective_date r' \<le> d
                   \<longrightarrow> effective_date r' \<le> effective_date r)))
   \<and> (get_key_rate_on_date db d = None
      \<longleftrightarrow> (\<forall>r \<in> set db. \<not> effective_date r \<le> d))
   \<and> (\<forall>v. get_key_rate_on_date db d = Some v \<longrightarrow>
          (\<exists>r \<in> set db. rate r = v \<and> effective_date r \<le> d
             \<and> (\<forall>r' \<in> set db. effective_date r' \<le> d
                   \<longrightarrow> effective_date r' \<le> effective_date r)))
   \<and> (distinct (map effective_date db)
      \<longrightarrow> get_average_key_rate_for_period db d d = get_key_rate_on_date db d)"
proof -
  let ?w = "order_by_effective_date (filter (\<lambda>r. effective_date r = d) db)"
  note c = degenerate_range_cases [of db d]
  have on: "\<forall>r \<in> set ?w. r \<in> set db \<and> effective_date r = d"
    by (simp add: order_by_effective_date_def)
  have 1: "get_average_key_rate_for_period db d d = None
      \<longleftrightarrow> (\<forall>r \<in> set db. \<not> effective_date r \<le> d)"
  proof (cases ?w)
    case Nil
    with c show ?thesis by (simp add: get_key_rate_on_date_None)
  next
    case (Cons r0 rs)
    with on have "r0 \<in> set db" "effective_date r0 = d" by simp_all
    with c Cons show ?thesis by auto
  qed
  have 2: "\<exists>r \<in> set db. rate r = v \<and> effective_date r \<le> d
             \<and> (\<forall>r' \<in> set db. effective_date r' \<le> d
                   \<longrightarrow> effective_date r' \<le> effective_date r)"
    if v: "get_average_key_rate_for_period db d d = Some v" for v
  proof (cases ?w)
    case Nil
    with c v have "get_key_rate_on_date db d = Some v" by simp
    then show ?thesis by (rule get_key_rate_on_date_Some)
  next
    case (Cons r0 rs)
    with on have "r0 \<in> set db" "effective_date r0 = d" by simp_all
    moreover from c v Cons have "rate r0 = v" by simp
    ultimately show ?thesis by auto
  qed
  have 5: "get_average_key_rate_for_period db d d = get_key_rate_on_date db d"
    if di: "distinct (map effective_date db)"
  proof (cases ?w)
    case Nil
    with c show ?thesis by simp
  next
    case (Cons r0 rs)
    with on have r0: "r0 \<in> set db" "effective_date r0 = d" by simp_all
    from get_rate_on_date_exact [OF di r0(1)] r0(2)
    have "get_key_rate_on_date db d = Some (rate r0)"
      by (simp add: get_key_rate_on_date_def)
    with c Cons show ?thesis by simp
  qed
  from 1 2 5 get_key_rate_on_date_None [of db d] get_key_rate_on_date_Some [of db d]
  show ?thesis by blast
qed

theorem degenerate_range_is_point_lookup_witness:
  "distinct (map effective_date example_rates)
   \<and> get_average_key_rate_for_period example_rates (mk_date 2024 6 3) (mk_date 2024 6 3) = Some 21
   \<and> get_key_rate_on_date example_rates (mk_date 2024 6 3) = Some 21
   \<and> get_average_key_rate_for_period example_rates (mk_date 2024 7 1) (mk_date 2024 7 1) = Some 21
   \<and> get_average_key_rate_for_period example_rates (mk_date 2024 6 2) (mk_date 2024 6 2) = None"
proof -
  have d: "distinct (map effective_date example_rates)"
    by (simp add: example_rates_def)
  have k: "get_key_rate_on_date example_rates (mk_date 2024 6 3) = Some 21"
    "get_key_rate_on_date example_rates (mk_date 2024 7 1) = Some 21"
    "get_key_rate_on_date example_rates (mk_date 2024 6 2) = None"
    by code_simp+
  from degenerate_range_is_point_lookup [of example_rates "mk_date 2024 6 3"]
       degenerate_range_is_point_lookup [of example_rates "mk_date 2024 7 1"]
       degenerate_range_is_point_lookup [of example_rates "mk_date 2024 6 2"] d k
  show ?thesis by simp
qed

section \<open>The range query and the duration-weighted average\<close>

lemma get_key_rate_on_date_later:
  "get_key_rate_on_date db s \<noteq> None \<Longrightarrow> s \<le> t \<Longrightarrow> get_key_rate_on_date db t \<noteq> None"
proof -
  assume "get_key_rate_on_date db s \<noteq> None" and st: "s \<le> t"
  then obtain r where "r \<in> set db" "effective_date r \<le> s"
    by (auto simp: get_key_rate_on_date_None)
  with st have "r \<in> set db" "effective_date r \<le> t" by simp_all
  then have "\<not> (\<forall>r \<in> set db. \<not> effective_date r \<le> t)" by blast
  then show ?thesis by (simp add: get_key_rate_on_date_None)
qed

lemma whole_days_exact:
  "a mod usec_per_day = b mod usec_per_day \<Longrightarrow> timedelta_days b a * usec_per_day = b - a"
proof -
  assume "a mod usec_per_day = b mod usec_per_day"
  then have "usec_per_day dvd b - a"
    by (metis mod_eq_dvd_iff)
  then show ?thesis
    by (simp add: timedelta_days_def)
qed

text \<open>
  When all cuts fall on the same time of day and a rate is in force at each of them, the
  whole days of the pieces are their durations.
\<close>

lemma whole_day_sums_exact:
  assumes "\<forall>c \<in> set cuts. c mod usec_per_day = m" and "\<forall>c \<in> set cuts. f c \<noteq> None"
    and "cuts \<noteq> []"
  shows "rate_integral f cuts
           = Some (fst (whole_day_sums f cuts) * real_of_int usec_per_day)
         \<and> snd (whole_day_sums f cuts) * usec_per_day = last cuts - hd cuts"
  using assms
proof (induction f cuts rule: whole_day_sums.induct)
  case (1 f a b cuts)
  from "1.prems" obtain r where r: "f a = Some r" by auto
  from "1.prems" have ab: "a mod usec_per_day = b mod usec_per_day" by simp
  obtain ws tw where s: "whole_day_sums f (b # cuts) = (ws, tw)"
    by (cases "whole_day_sums f (b # cuts)")
  from "1.IH" "1.prems" s have
    ih: "rate_integral f (b # cuts) = Some (ws * real_of_int usec_per_day)"
      "tw * usec_per_day = last (b # cuts) - b"
    by simp_all
  have "real_of_int (timedelta_days b a * usec_per_day) = real_of_int (b - a)"
    using whole_days_exact [OF ab] by simp
  then have d: "real_of_int (timedelta_days b a) * real_of_int usec_per_day = real_of_int (b - a)"
    by simp
  have "r * real_of_int (b - a) + ws * real_of_int usec_per_day
          = (r * real_of_int (timedelta_days b a) + ws) * real_of_int usec_per_day"
    unfolding d [symmetric] by (simp add: algebra_simps)
  moreover have "(timedelta_days b a + tw) * usec_per_day = last (a # b # cuts) - a"
    using whole_days_exact [OF ab] ih(2) by (simp add: algebra_simps)
  moreover have "whole_day_sums f (a # b # cuts)
                   = (r * real_of_int (timedelta_days b a) + ws, timedelta_days b a + tw)"
    using r s by (simp add: Let_def)
  moreover have "rate_integral f (a # b # cuts)
                   = Some (r * real_of_int (b - a) + ws * real_of_int usec_per_day)"
    using r ih(1) by simp
  ultimately show ?case
    by (simp del: whole_day_sums.simps rate_integral.simps last.simps)
qed simp_all

lemma average_on_whole_days:
  assumes di: "distinct (map effective_date db)" and lt: "s < e"
    and ae: "(e - s) mod usec_per_day = 0"
    and ap: "\<forall>r \<in> set db. s \<le> effective_date r \<and> effective_date r \<le> e
               \<longrightarrow> (effective_date r - s) mod usec_per_day = 0"
    and fr: "get_key_rate_on_date db s \<noteq> None"
  shows "get_average_key_rate_for_period db s e = spec_average_over db s e"
proof -
  let ?inner = "filter (\<lambda>r. s < effective_date r \<and> effective_date r < e)
                  (order_by_effective_date db)"
  let ?cuts = "s # map effective_date ?inner @ [e]"
  let ?f = "get_key_rate_on_date db"
  have same: "c mod usec_per_day = s mod usec_per_day" if "(c - s) mod usec_per_day = 0" for c
    using that by (metis mod_eq_dvd_iff mod_0_imp_dvd)
  have al: "\<forall>c \<in> set ?cuts. c mod usec_per_day = s mod usec_per_day"
    using ae ap by (auto simp: order_by_effective_date_def intro!: same)
  have "\<forall>c \<in> set ?cuts. s \<le> c"
    using lt by (auto simp: order_by_effective_date_def)
  then have de: "\<forall>c \<in> set ?cuts. ?f c \<noteq> None"
    using get_key_rate_on_date_later [OF fr] by blast
  obtain ws tw where w: "whole_day_sums ?f ?cuts = (ws, tw)"
    by (cases "whole_day_sums ?f ?cuts")
  from whole_day_sums_exact [OF al de] w have
    ri: "rate_integral ?f ?cuts = Some (ws * real_of_int usec_per_day)"
    and tw: "tw * usec_per_day = e - s"
    by simp_all
  from tw lt have twn: "tw \<noteq> 0" by auto
  from whole_days_exact [OF same [OF ae, symmetric]] lt have "timedelta_days e s \<noteq> 0"
    by auto
  from average_is_whole_day_average [OF di this]
  have "get_average_key_rate_for_period db s e = Some (ws / real_of_int tw)"
    using w twn by (simp add: whole_day_average_def Let_def)
  moreover have "real_of_int (e - s) = real_of_int tw * real_of_int usec_per_day"
    using tw by (metis of_int_mult)
  then have "ws * real_of_int usec_per_day / real_of_int (e - s) = ws / real_of_int tw"
    by (simp add: usec_per_day_def)
  with ri lt have "spec_average_over db s e = Some (ws / real_of_int tw)"
    by (simp add: spec_average_over_def Let_def)
  ultimately show ?thesis by simp
qed

text \<open>
  Claim C4 as stated fails. Rates of 10 and then, from 2024-06-03, 21 are in force over the
  whole range from noon of 2024-06-02 to noon of 2024-06-03, and their duration-weighted
  average is 15.5. The range query counts each half-day piece as zero whole days and
  returns None.
\<close>

theorem duration_weighted_average_counterexample:
  "\<not> (\<forall>db s e. distinct (map effective_date db) \<and> s < e
          \<and> get_key_rate_on_date db s \<noteq> None
        \<longrightarrow> get_average_key_rate_for_period db s e = spec_average_over db s e)"
proof
  let ?db = "[rate_point (mk_date 2024 5 1) 10, rate_point (mk_date 2024 6 3) 21]"
  let ?s = "mk_date 2024 6 2 + 43200000000"
  let ?e = "mk_date 2024 6 3 + 43200000000"
  assume a: "\<forall>db s e. distinct (map effective_date db) \<and> s < e
          \<and> get_key_rate_on_date db s \<noteq> None
        \<longrightarrow> get_average_key_rate_for_period db s e = spec_average_over db s e"
  have h: "distinct (map effective_date ?db)" "?s < ?e"
    "get_key_rate_on_date ?db ?s = Some 10"
    by code_simp+
  have c: "get_average_key_rate_for_period ?db ?s ?e = None"
    by code_simp
  have r: "spec_average_over ?db ?s ?e = Some (31 / 2)"
    by code_simp
  from a h have "get_average_key_rate_for_period ?db ?s ?e = spec_average_over ?db ?s ?e"
    by simp
  with c r show False by simp
qed

text \<open>
  Claim C4, amended. The range query measures every piece of the range in whole days. For
  a store whose points have distinct effective dates and a range of at least one whole day
  it returns the average of the rates in force on the pieces, the piece before the first
  point of the range included with the rate found by the lookup at the start of the range,
  each piece weighted by its whole days, and None when these add up to zero; over a
  shorter range it returns the rate of the first point effective inside the range, or the
  lookup at its start when there is none. So when the range is a whole number of days long, every effective date inside it lies a whole number
  of days after its start, and a rate is in force at its start, the result is the
  duration-weighted average of the rate in force across the range. In particular, for any
  day 0: points of rates 10, 20 and 30 effective on days 0, 10 and 20 average to 20 over
  days 0 to 30, and a point of rate 15 effective on day 5 with an earlier point of rate 5
  effective on day -10 average to 10 over days 0 to 10.
\<close>

theorem average_over_time_weighted:
  "(distinct (map effective_date db) \<and> s < e \<and> (e - s) mod usec_per_day = 0
      \<and> (\<forall>r \<in> set db. s \<le> effective_date r \<and> effective_date r \<le> e
             \<longrightarrow> (effective_date r - s) mod usec_per_day = 0)
      \<and> get_key_rate_on_date db s \<noteq> None
      \<longrightarrow> get_average_key_rate_for_period db s e = spec_average_over db s e)
   \<and> (distinct (map effective_date db) \<and> timedelta_days e s \<noteq> 0
      \<longrightarrow> get_average_key_rate_for_period db s e = whole_day_average db s e)
   \<and> (timedelta_days e s = 0
      \<longrightarrow> get_average_key_rate_for_period db s e =
            (case order_by_effective_date
                    (filter (\<lambda>r. s \<le> effective_date r \<and> effective_date r \<le> e) db) of
               [] \<Rightarrow> get_key_rate_on_date db s
             | r0 # _ \<Rightarrow> Some (rate r0)))
   \<and> get_average_key_rate_for_period
       [rate_point d0 10, rate_point (d0 + 10 * usec_per_day) 20,
        rate_point (d0 + 20 * usec_per_day) 30]
       d0 (d0 + 30 * usec_per_day) = Some 20
   \<and> get_average_key_rate_for_period
       [rate_point (d0 + 5 * usec_per_day) 15, rate_point (d0 - 10 * usec_per_day) 5]
       d0 (d0 + 10 * usec_per_day) = Some 10"
proof (intro conjI impI)
  assume h: "distinct (map effective_date db) \<and> s < e \<and> (e - s) mod usec_per_day = 0
      \<and> (\<forall>r \<in> set db. s \<le> effective_date r \<and> effective_date r \<le> e
             \<longrightarrow> (effective_date r - s) mod usec_per_day = 0)
      \<and> get_key_rate_on_date db s \<noteq> None"
  then have 1: "distinct (map effective_date db)" and 2: "s < e"
    and 3: "(e - s) mod usec_per_day = 0"
    and 4: "\<forall>r \<in> set db. s \<le> effective_date r \<and> effective_date r \<le> e
             \<longrightarrow> (effective_date r - s) mod usec_per_day = 0"
    and 5: "get_key_rate_on_date db s \<noteq> None"
    by simp_all
  from average_on_whole_days [OF 1 2 3 4 5]
  show "get_average_key_rate_for_period db s e = spec_average_over db s e" .
next
  assume "distinct (map effective_date db) \<and> timedelta_days e s \<noteq> 0"
  then show "get_average_key_rate_for_period db s e = whole_day_average db s e"
    by (simp add: average_is_whole_day_average)
next
  assume "timedelta_days e s = 0"
  then show "get_average_key_rate_for_period db s e =
            (case order_by_effective_date
                    (filter (\<lambda>r. s \<le> effective_date r \<and> effective_date r \<le> e) db) of
               [] \<Rightarrow> get_key_rate_on_date db s
             | r0 # _ \<Rightarrow> Some (rate r0))"
    by (simp add: get_average_key_rate_for_period_def get_key_rate_on_date_def
          split: list.splits)
next
  show "get_average_key_rate_for_period
       [rate_point d0 10, rate_point (d0 + 10 * usec_per_day) 20,
        rate_point (d0 + 20 * usec_per_day) 30]
       d0 (d0 + 30 * usec_per_day) = Some 20"
    by (rule three_points_average)
next
  show "get_average_key_rate_for_period
       [rate_point (d0 + 5 * usec_per_day) 15, rate_point (d0 - 10 * usec_per_day) 5]
       d0 (d0 + 10 * usec_per_day) = Some 10"
    by (rule pre_window_gap_average)
qed

theorem average_over_time_weighted_witness:
  "distinct (map effective_date
       [rate_point (mk_date 2024 3 16) 15, rate_point (mk_date 2024 3 1) 5])
   \<and> mk_date 2024 3 11 < mk_date 2024 3 21
   \<and> (mk_date 2024 3 21 - mk_date 2024 3 11) mod usec_per_day = 0
   \<and> (mk_date 2024 3 16 - mk_date 2024 3 11) mod usec_per_day = 0
   \<and> get_key_rate_on_date [rate_point (mk_date 2024 3 16) 15, rate_point (mk_date 2024 3 1) 5]
        (mk_date 2024 3 11) = Some 5
   \<and> timedelta_days (mk_date 2024 3 21) (mk_date 2024 3 11) = 10
   \<and> spec_average_over [rate_point (mk_date 2024 3 16) 15, rate_point (mk_date 2024 3 1) 5]
        (mk_date 2024 3 11) (mk_date 2024 3 21) = Some 10
   \<and> whole_day_average [rate_point (mk_date 2024 3 16) 15, rate_point (mk_date 2024 3 1) 5]
        (mk_date 2024 3 11) (mk_date 2024 3 21) = Some 10
   \<and> get_average_key_rate_for_period
        [rate_point (mk_date 2024 3 16) 15, rate_point (mk_date 2024 3 1) 5]
        (mk_date 2024 3 11) (mk_date 2024 3 21) = Some 10
   \<and> timedelta_days (mk_date 2024 3 16 + 3600000000) (mk_date 2024 3 15 + 43200000000) = 0
   \<and> get_average_key_rate_for_period
        [rate_point (mk_date 2024 3 16) 15, rate_point (mk_date 2024 3 1) 5]
        (mk_date 2024 3 15 + 43200000000) (mk_date 2024 3 16 + 3600000000) = Some 15"
proof -
  let ?db = "[rate_point (mk_date 2024 3 16) 15, rate_point (mk_date 2024 3 1) 5]"
  let ?s = "mk_date 2024 3 11"
  let ?e = "mk_date 2024 3 21"
  have h: "distinct (map effective_date ?db)" "?s < ?e" "(?e - ?s) mod usec_per_day = 0"
    "(mk_date 2024 3 16 - ?s) mod usec_per_day = 0"
    "get_key_rate_on_date ?db ?s = Some 5"
    "timedelta_days ?e ?s = 10"
    "spec_average_over ?db ?s ?e = Some 10"
    "whole_day_average ?db ?s ?e = Some 10"
    by code_simp+
  have al: "\<forall>r \<in> set ?db. ?s \<le> effective_date r \<and> effective_date r \<le> ?e
               \<longrightarrow> (effective_date r - ?s) mod usec_per_day = 0"
    by code_simp
  let ?s' = "mk_date 2024 3 15 + 43200000000"
  let ?e' = "mk_date 2024 3 16 + 3600000000"
  have z: "timedelta_days ?e' ?s' = 0"
    by code_simp
  have w: "(case order_by_effective_date
                    (filter (\<lambda>r. ?s' \<le> effective_date r \<and> effective_date r \<le> ?e') ?db) of
               [] \<Rightarrow> get_key_rate_on_date ?db ?s'
             | r0 # _ \<Rightarrow> Some (rate r0)) = Some 15"
    by code_simp
  from average_over_time_weighted [of ?db ?s' ?e' 0] z w
  have "get_average_key_rate_for_period ?db ?s' ?e' = Some 15"
    by simp
  with average_over_time_weighted [of ?db ?s ?e 0] h al z
  show ?thesis by simp
qed

section \<open>The upsert of a batch\<close>

lemma overwrite_with_date [simp]: "date (overwrite_with rd r) = date r"
  by (simp add: overwrite_with_def)

lemma date_row_of [simp]: "date (row_of rd) = rd_date rd"
  by (simp add: row_of_def)

lemma overwrite_with_row: "date r = rd_date rd \<Longrightarrow> overwrite_with rd r = row_of rd"
  by (cases r) (simp add: overwrite_with_def row_of_def)

lemma update_first_none: "\<forall>x \<in> set xs. \<not> P x \<Longrightarrow> update_first P f xs = xs"
  by (induction xs) auto

lemma filter_update_first_other:
  "(\<And>x. k (f x) = k x) \<Longrightarrow> d \<noteq> d'
   \<Longrightarrow> filter (\<lambda>x. k x = d) (update_first (\<lambda>x. k x = d') f xs) = filter (\<lambda>x. k x = d) xs"
  by (induction xs) auto

text \<open>The table after the loop: every entry of the batch applied to its first row, in turn.\<close>

lemma upsert_loop_fold:
  "upsert_loop key_rates db pending n =
     (foldl (\<lambda>t rd. update_first (\<lambda>r. date r = rd_date rd) (overwrite_with rd) t) db key_rates,
      pending @ map row_of (filter (\<lambda>rd. rd_date rd \<notin> set (map date db)) key_rates),
      n + int (length key_rates))"
proof (induction key_rates arbitrary: db pending n)
  case Nil
  show ?case by simp
next
  case (Cons rd key_rates)
  let ?P = "\<lambda>r. date r = rd_date rd"
  let ?u = "update_first ?P (overwrite_with rd) db"
  have ow: "(\<lambda>r. r\<lparr>rate := rd_rate rd, effective_date := rd_effective_date rd\<rparr>)
              = overwrite_with rd"
    by (rule ext) (simp add: overwrite_with_def)
  have du: "map date ?u = map date db"
    by (simp add: map_update_first)
  show ?case
  proof (cases "first (filter ?P db)")
    case None
    then have n: "\<forall>r \<in> set db. \<not> ?P r" by (simp add: first_filter_None)
    then have "rd_date rd \<notin> set (map date db)" by auto
    moreover from n have "?u = db" by (rule update_first_none)
    ultimately show ?thesis
      using None Cons.IH [of db "pending @ [row_of rd]" "n + 1"]
      by (simp add: row_of_def)
  next
    case (Some x)
    from first_filter_Some [OF Some] have "rd_date rd \<in> set (map date db)" by force
    then show ?thesis
      using Some Cons.IH [of ?u pending "n + 1"] du
      by (simp add: ow)
  qed
qed

lemma fold_dates:
  "map date (foldl (\<lambda>t rd. update_first (\<lambda>r. date r = rd_date rd) (overwrite_with rd) t) db
               key_rates) = map date db"
  by (induction key_rates arbitrary: db) (simp_all add: map_update_first)

lemma fold_other_dates:
  "d \<notin> rd_date ` set key_rates
   \<Longrightarrow> filter (\<lambda>r. date r = d)
         (foldl (\<lambda>t rd. update_first (\<lambda>r. date r = rd_date rd) (overwrite_with rd) t) db
            key_rates)
       = filter (\<lambda>r. date r = d) db"
  by (induction key_rates arbitrary: db) (simp_all add: filter_update_first_other)

lemma fold_nth:
  "i < length db \<Longrightarrow> date (db ! i) \<notin> rd_date ` set key_rates
   \<Longrightarrow> foldl (\<lambda>t rd. update_first (\<lambda>r. date r = rd_date rd) (overwrite_with rd) t) db
         key_rates ! i = db ! i"
proof (induction key_rates arbitrary: db)
  case Nil
  show ?case by simp
next
  case (Cons rd key_rates)
  let ?u = "update_first (\<lambda>r. date r = rd_date rd) (overwrite_with rd) db"
  from Cons.prems have u: "?u ! i = db ! i"
    by (simp add: nth_update_first)
  with Cons.prems have "i < length ?u" "date (?u ! i) \<notin> rd_date ` set key_rates"
    by (simp_all add: length_update_first)
  from Cons.IH [OF this] u show ?case by simp
qed

lemma fold_first:
  assumes "distinct (map rd_date key_rates)" and "rd \<in> set key_rates"
    and "rd_date rd \<in> set (map date db)"
  shows "first (filter (\<lambda>r. date r = rd_date rd)
           (foldl (\<lambda>t q. update_first (\<lambda>r. date r = rd_date q) (overwrite_with q) t) db
              key_rates)) = Some (row_of rd)"
  using assms
proof (induction key_rates arbitrary: db)
  case Nil
  then show ?case by simp
next
  case (Cons q key_rates)
  let ?u = "update_first (\<lambda>r. date r = rd_date q) (overwrite_with q) db"
  show ?case
  proof (cases "rd = q")
    case True
    from Cons.prems(3) True obtain x where
      x: "first (filter (\<lambda>r. date r = rd_date q) db) = Some x"
      using first_filter_None [of "\<lambda>r. date r = rd_date q" db]
      by (cases "first (filter (\<lambda>r. date r = rd_date q) db)") auto
    from first_filter_Some [OF x] have dx: "date x = rd_date q" by simp
    have "first (filter (\<lambda>r. date r = rd_date q) ?u) = Some (overwrite_with q x)"
      by (rule first_filter_update_first [OF x]) (simp add: dx)
    then have f: "first (filter (\<lambda>r. date r = rd_date q) ?u) = Some (row_of q)"
      by (simp add: overwrite_with_row dx)
    from Cons.prems(1) have "rd_date q \<notin> rd_date ` set key_rates" by simp
    from fold_other_dates [OF this, of ?u] f True show ?thesis by simp
  next
    case False
    with Cons.prems have "distinct (map rd_date key_rates)" "rd \<in> set key_rates"
      "rd_date rd \<in> set (map date ?u)"
      by (simp_all add: map_update_first)
    from Cons.IH [OF this] show ?thesis by simp
  qed
qed

lemma first_append: "first xs = Some x \<Longrightarrow> first (xs @ ys) = Some x"
  by (cases xs) (simp_all add: first_def)

lemma fold_length:
  "length (foldl (\<lambda>t rd. update_first (\<lambda>r. date r = rd_date rd) (overwrite_with rd) t) db
             key_rates) = length db"
  by (induction key_rates arbitrary: db) (simp_all add: length_update_first)

lemma filter_row_of:
  "filter (\<lambda>r. date r = d) (map row_of xs) = map row_of (filter (\<lambda>q. rd_date q = d) xs)"
  by (induction xs) simp_all

lemma dates_row_of: "map date (map row_of xs) = map rd_date xs"
  by (induction xs) simp_all

lemma filter_new_dates:
  "map rd_date (filter (\<lambda>rd. rd_date rd \<notin> A) xs) = filter (\<lambda>d. d \<notin> A) (map rd_date xs)"
  by (induction xs) simp_all

text \<open>The upsert of a batch, as the table after the loop followed by the new rows.\<close>

lemma upsert_key_rates_fold:
  "upsert_key_rates key_rates db =
     (foldl (\<lambda>t rd. update_first (\<lambda>r. date r = rd_date rd) (overwrite_with rd) t) db key_rates
        @ map row_of (filter (\<lambda>rd. rd_date rd \<notin> set (map date db)) key_rates),
      int (length key_rates))"
  by (simp add: upsert_key_rates_def upsert_loop_fold)

lemma upsert_batch_count: "snd (upsert_key_rates key_rates db) = int (length key_rates)"
  by (simp add: upsert_key_rates_fold)

lemma upsert_batch_dates:
  "map date (fst (upsert_key_rates key_rates db))
     = map date db @ filter (\<lambda>d. d \<notin> set (map date db)) (map rd_date key_rates)"
  unfolding upsert_key_rates_fold fst_conv map_append fold_dates dates_row_of filter_new_dates
  by (rule refl)

lemma upsert_batch_first:
  assumes "distinct (map rd_date key_rates)" and rd: "rd \<in> set key_rates"
  shows "first (filter (\<lambda>r. date r = rd_date rd) (fst (upsert_key_rates key_rates db)))
           = Some (row_of rd)"
proof (cases "rd_date rd \<in> set (map date db)")
  case True
  let ?t = "foldl (\<lambda>t rd. update_first (\<lambda>r. date r = rd_date rd) (overwrite_with rd) t) db
              key_rates"
  from fold_first [OF assms True]
  have "first (filter (\<lambda>r. date r = rd_date rd) ?t) = Some (row_of rd)" .
  then show ?thesis
    unfolding upsert_key_rates_fold fst_conv filter_append by (rule first_append)
next
  case False
  let ?t = "foldl (\<lambda>t rd. update_first (\<lambda>r. date r = rd_date rd) (overwrite_with rd) t) db
              key_rates"
  let ?new = "filter (\<lambda>rd. rd_date rd \<notin> set (map date db)) key_rates"
  have "set (map date ?t) = set (map date db)"
    by (simp only: fold_dates)
  with False have "rd_date rd \<notin> set (map date ?t)" by simp
  then have "\<forall>r \<in> set ?t. date r \<noteq> rd_date rd" by (auto simp: image_iff)
  then have e: "filter (\<lambda>r. date r = rd_date rd) ?t = []"
    by (simp add: filter_empty_conv)
  from assms(1) have "distinct (map rd_date ?new)"
    by (rule distinct_map_filter)
  moreover from rd False have "rd \<in> set ?new" by simp
  ultimately have "filter (\<lambda>q. rd_date q = rd_date rd) ?new = [rd]"
    by (rule filter_single)
  then have "filter (\<lambda>r. date r = rd_date rd) (map row_of ?new) = [row_of rd]"
    by (simp only: filter_row_of list.map)
  with e show ?thesis
    unfolding upsert_key_rates_fold fst_conv filter_append by (simp add: first_def)
qed

lemma upsert_batch_others:
  assumes i: "i < length db" and d: "date (db ! i) \<notin> rd_date ` set key_rates"
  shows "fst (upsert_key_rates key_rates db) ! i = db ! i"
  unfolding upsert_key_rates_fold fst_conv
  using i fold_nth [OF i d] by (simp add: nth_append fold_length)

lemma upsert_batch_unique:
  assumes "distinct (map rd_date key_rates)" and "distinct (map date db)"
  shows "distinct (map date (fst (upsert_key_rates key_rates db)))"
    and "\<forall>rd \<in> set key_rates.
           filter (\<lambda>r. date r = rd_date rd) (fst (upsert_key_rates key_rates db)) = [row_of rd]"
proof -
  from assms(1) have "distinct (filter (\<lambda>d. d \<notin> set (map date db)) (map rd_date key_rates))"
    by simp
  with assms(2) show d: "distinct (map date (fst (upsert_key_rates key_rates db)))"
    unfolding upsert_batch_dates by auto
  show "\<forall>rd \<in> set key_rates.
           filter (\<lambda>r. date r = rd_date rd) (fst (upsert_key_rates key_rates db)) = [row_of rd]"
  proof
    fix rd
    assume "rd \<in> set key_rates"
    from first_Some_filter_single [OF d upsert_batch_first [OF assms(1) this]]
    show "filter (\<lambda>r. date r = rd_date rd) (fst (upsert_key_rates key_rates db)) = [row_of rd]" .
  qed
qed

text \<open>
  Claim C6 as stated fails, in three ways. On empty input \<open>update_key_rates\<close> raises.
  A batch that holds one new announcement date twice inserts two rows for it, since the
  pending first row is not seen by the query for the second; so the table no longer has
  one row per announcement date. And in that store state an upsert of the same date
  overwrites the first of the two rows only: two rows remain, one of them stale.
\<close>

theorem upsert_counterexample:
  "\<not> (\<forall>db. \<exists>r. update_key_rates [] db = Inr r)
   \<and> \<not> (\<forall>key_rates db. distinct (map date db)
           \<longrightarrow> distinct (map date (fst (upsert_key_rates key_rates db))))
   \<and> \<not> (\<forall>db rd. (\<exists>r \<in> set db. date r = rd_date rd)
           \<longrightarrow> filter (\<lambda>r. date r = rd_date rd) (fst (upsert_key_rates [rd] db))
                 = [row_of rd])"
proof (intro conjI notI)
  assume "\<forall>db. \<exists>r. update_key_rates [] db = Inr r"
  then obtain r where "update_key_rates [] example_rates = Inr r" by blast
  then show False by (simp add: update_key_rates_def)
next
  let ?twice = "fst (upsert_key_rates [example_entry, example_entry_revised] example_rates)"
  assume "\<forall>key_rates db. distinct (map date db)
           \<longrightarrow> distinct (map date (fst (upsert_key_rates key_rates db)))"
  moreover have "distinct (map date example_rates)"
    by (simp add: example_rates_def)
  ultimately have "distinct (map date ?twice)" by blast
  moreover have "map date ?twice = [mk_date 2024 6 1, mk_date 2024 7 26, mk_date 2024 7 26]"
    by code_simp
  ultimately show False by simp
next
  let ?twice = "fst (upsert_key_rates [example_entry, example_entry_revised] example_rates)"
  assume "\<forall>db rd. (\<exists>r \<in> set db. date r = rd_date rd)
           \<longrightarrow> filter (\<lambda>r. date r = rd_date rd) (fst (upsert_key_rates [rd] db))
                 = [row_of rd]"
  moreover have "\<exists>r \<in> set ?twice. date r = rd_date example_entry"
    by code_simp
  ultimately have "filter (\<lambda>r. date r = rd_date example_entry)
                     (fst (upsert_key_rates [example_entry] ?twice)) = [row_of example_entry]"
    by blast
  moreover have "length (filter (\<lambda>r. date r = rd_date example_entry)
                     (fst (upsert_key_rates [example_entry] ?twice))) = 2"
    by code_simp
  ultimately show False by simp
qed

text \<open>
  Claim C6, amended. \<open>update_key_rates\<close> raises when nothing was fetched and otherwise runs
  the upsert. When the fetched points have pairwise distinct announcement dates the upsert
  is keyed by the announcement date, for every store state: it counts every point; a point
  whose announcement date exists overwrites the rate and the effective date of the first
  row of that date in place, a point of a new announcement date becomes a new row at the
  end, in the order of the batch; afterwards the first row of each upserted date is that
  point, and the rows of other dates are as before. When moreover the store holds at most
  one row for each announcement date, it still does afterwards, with exactly one row for
  each upserted date, and a later upsert of such a batch leaves exactly one row for each
  of its dates, with the later rate and effective date.
\<close>

theorem upsert_keyed_by_announcement_date:
  "update_key_rates [] db = Inl FetchError
   \<and> (key_rates \<noteq> [] \<longrightarrow> update_key_rates key_rates db = Inr (upsert_key_rates key_rates db))
   \<and> (distinct (map rd_date key_rates) \<longrightarrow>
        snd (upsert_key_rates key_rates db) = int (length key_rates)
        \<and> map date (fst (upsert_key_rates key_rates db))
            = map date db @ filter (\<lambda>d. d \<notin> set (map date db)) (map rd_date key_rates)
        \<and> (\<forall>rd \<in> set key_rates.
              first (filter (\<lambda>r. date r = rd_date rd) (fst (upsert_key_rates key_rates db)))
                = Some (row_of rd))
        \<and> (\<forall>i < length db. date (db ! i) \<notin> rd_date ` set key_rates
              \<longrightarrow> fst (upsert_key_rates key_rates db) ! i = db ! i))
   \<and> (distinct (map rd_date key_rates) \<and> distinct (map date db) \<longrightarrow>
        distinct (map date (fst (upsert_key_rates key_rates db)))
        \<and> (\<forall>rd \<in> set key_rates.
              filter (\<lambda>r. date r = rd_date rd) (fst (upsert_key_rates key_rates db))
                = [row_of rd]))
   \<and> (distinct (map rd_date key_rates) \<and> distinct (map rd_date later)
        \<and> distinct (map date db) \<longrightarrow>
        (\<forall>rd \<in> set later.
           filter (\<lambda>r. date r = rd_date rd)
             (fst (upsert_key_rates later (fst (upsert_key_rates key_rates db))))
             = [row_of rd]))"
proof (intro conjI impI)
  show "update_key_rates [] db = Inl FetchError"
    by (simp add: update_key_rates_def)
next
  assume "key_rates \<noteq> []"
  then show "update_key_rates key_rates db = Inr (upsert_key_rates key_rates db)"
    by (simp add: update_key_rates_def)
next
  show "snd (upsert_key_rates key_rates db) = int (length key_rates)"
    by (rule upsert_batch_count)
next
  show "map date (fst (upsert_key_rates key_rates db))
            = map date db @ filter (\<lambda>d. d \<notin> set (map date db)) (map rd_date key_rates)"
    by (rule upsert_batch_dates)
next
  assume "distinct (map rd_date key_rates)"
  then show "\<forall>rd \<in> set key_rates.
              first (filter (\<lambda>r. date r = rd_date rd) (fst (upsert_key_rates key_rates db)))
                = Some (row_of rd)"
    using upsert_batch_first [of key_rates _ db] by blast
next
  show "\<forall>i < length db. date (db ! i) \<notin> rd_date ` set key_rates
              \<longrightarrow> fst (upsert_key_rates key_rates db) ! i = db ! i"
    using upsert_batch_others [of _ db key_rates] by blast
next
  assume "distinct (map rd_date key_rates) \<and> distinct (map date db)"
  then show "distinct (map date (fst (upsert_key_rates key_rates db)))"
    using upsert_batch_unique(1) [of key_rates db] by blast
next
  assume "distinct (map rd_date key_rates) \<and> distinct (map date db)"
  then show "\<forall>rd \<in> set key_rates.
              filter (\<lambda>r. date r = rd_date rd) (fst (upsert_key_rates key_rates db))
                = [row_of rd]"
    using upsert_batch_unique(2) [of key_rates db] by blast
next
  assume a: "distinct (map rd_date key_rates) \<and> distinct (map rd_date later)
        \<and> distinct (map date db)"
  then have "distinct (map date (fst (upsert_key_rates key_rates db)))"
    using upsert_batch_unique(1) [of key_rates db] by blast
  with a show "\<forall>rd \<in> set later.
           filter (\<lambda>r. date r = rd_date rd)
             (fst (upsert_key_rates later (fst (upsert_key_rates key_rates db))))
             = [row_of rd]"
    using upsert_batch_unique(2) [of later "fst (upsert_key_rates key_rates db)"] by blast
qed

theorem upsert_keyed_by_announcement_date_witness:
  "distinct (map rd_date
      [\<lparr>rd_date = mk_date 2024 6 1, rd_effective_date = mk_date 2024 6 3, rd_rate = 18\<rparr>,
       example_entry])
   \<and> distinct (map rd_date [example_entry_revised])
   \<and> distinct (map date example_rates)
   \<and> update_key_rates
        [\<lparr>rd_date = mk_date 2024 6 1, rd_effective_date = mk_date 2024 6 3, rd_rate = 18\<rparr>,
         example_entry] example_rates
      = Inr ([\<lparr>date = mk_date 2024 6 1, effective_date = mk_date 2024 6 3, rate = 18\<rparr>,
              row_of example_entry], 2)
   \<and> filter (\<lambda>r. date r = rd_date example_entry_revised)
        (fst (upsert_key_rates [example_entry_revised]
           (fst (upsert_key_rates
              [\<lparr>rd_date = mk_date 2024 6 1, rd_effective_date = mk_date 2024 6 3, rd_rate = 18\<rparr>,
               example_entry] example_rates))))
      = [row_of example_entry_revised]"
proof -
  let ?b = "[\<lparr>rd_date = mk_date 2024 6 1, rd_effective_date = mk_date 2024 6 3, rd_rate = 18\<rparr>,
             example_entry]"
  let ?l = "[example_entry_revised]"
  have h: "distinct (map rd_date ?b)" "distinct (map rd_date ?l)"
    "distinct (map date example_rates)"
    by code_simp+
  have n: "?b \<noteq> []" by simp
  have t: "upsert_key_rates ?b example_rates
             = ([\<lparr>date = mk_date 2024 6 1, effective_date = mk_date 2024 6 3, rate = 18\<rparr>,
                 row_of example_entry], 2)"
    by code_simp
  note u = upsert_keyed_by_announcement_date [of example_rates ?b ?l]
  from u n have 1: "update_key_rates ?b example_rates = Inr (upsert_key_rates ?b example_rates)"
    by blast
  from u h have "\<forall>rd \<in> set ?l.
           filter (\<lambda>r. date r = rd_date rd)
             (fst (upsert_key_rates ?l (fst (upsert_key_rates ?b example_rates))))
             = [row_of rd]"
    by blast
  then have 2: "filter (\<lambda>r. date r = rd_date example_entry_revised)
        (fst (upsert_key_rates ?l (fst (upsert_key_rates ?b example_rates))))
      = [row_of example_entry_revised]"
    by simp
  from h 1 2 t show ?thesis
    by (simp only: simp_thms)
qed

end
